theory Spec2Isabelle
  imports Main
begin

section \<open>JavaScript values\<close>

text \<open>
  The library is dynamically typed: a filter tree, an operand, a parameter and a
  pipeline stage payload are all plain JavaScript values, and the translator decides
  what to do by runtime checks (\<^verbatim>\<open>instanceof SubQuery\<close>, \<^verbatim>\<open>typeof value === 'object'\<close>,
  \<^verbatim>\<open>Array.isArray\<close>). The model keeps one type of values and writes those checks
  as case distinctions.

  \<^item> Numbers are restricted to integers (no fractions, NaN or infinities); they are
    printed in decimal, which is what JavaScript does for integers below \<open>10^21\<close>.
  \<^item> Strings are lists of 8-bit characters; a non-ASCII source literal is given by its
    UTF-8 bytes.
  \<^item> A plain object is the list of its own enumerable properties in the order in which
    \<^verbatim>\<open>for ... in\<close> and \<^verbatim>\<open>Object.keys\<close> enumerate them; its keys are distinct.
  \<^item> \<open>JSub\<close> is an instance of the class \<^verbatim>\<open>SubQuery\<close>, with its two fields. The wrapped
    builder is an instance of \<^verbatim>\<open>MongoQueryBuilder\<close>, with its seven fields; the table
    name is a string, the projection is \<^verbatim>\<open>null\<close> or an array of strings, the join
    configuration is an array.
\<close>

datatype jsval =
    JUndef | JNull | JBool bool | JNum int | JStr string
  | JArr "jsval list"
  | JObj "(string \<times> jsval) list"
  | JSub subquery
and subquery =
    SubQuery (queryBuilder: builder) (cachedSQL: "string option")
and builder =
    MongoQueryBuilder (qb_tableName: string) (qb_filter: jsval)
      (qb_projection: "string list option") (qb_joinConfigs: "jsval list")
      (qb_sortClause: jsval) (qb_limitValue: jsval) (qb_offsetValue: jsval)

text \<open>
  An element of the parameter list: a value pushed as it is, or the result of
  \<^verbatim>\<open>JSON.stringify(v)\<close>, which is kept symbolic.
\<close>

datatype param = PVal jsval | PJson jsval

type_synonym statement = "string \<times> param list"

subsection \<open>Strings\<close>

text \<open>\<^verbatim>\<open>Array.prototype.join\<close> on an array of strings.\<close>

fun join_str :: "string \<Rightarrow> string list \<Rightarrow> string" where
  "join_str sep [] = []"
| "join_str sep [x] = x"
| "join_str sep (x # y # ys) = x @ sep @ join_str sep (y # ys)"

text \<open>\<^verbatim>\<open>s.startsWith('$')\<close>.\<close>

definition startsWith_dollar :: "string \<Rightarrow> bool" where
  "startsWith_dollar s = (case s of [] \<Rightarrow> False | c # _ \<Rightarrow> c = CHR ''$'')"

text \<open>Decimal digits of a non-negative integer, and of an integer.\<close>

fun show_nat :: "nat \<Rightarrow> string" where
  "show_nat n =
     (if n < 10 then [char_of (48 + n)]
      else show_nat (n div 10) @ [char_of (48 + n mod 10)])"

declare show_nat.simps [simp del]

definition show_int :: "int \<Rightarrow> string" where
  "show_int i = (if i < 0 then CHR ''-'' # show_nat (nat (- i)) else show_nat (nat i))"

text \<open>The number of \<^verbatim>\<open>?\<close> characters of an SQL text: its placeholders.\<close>

definition placeholders :: "string \<Rightarrow> nat" where
  "placeholders s = length (filter (\<lambda>c. c = CHR ''?'') s)"

text \<open>
  \<^verbatim>\<open>JSON.stringify\<close> of a string: the quoted string, with the escapes of
  ECMAScript's QuoteJSONString.
\<close>

definition hex_digit :: "nat \<Rightarrow> char" where
  "hex_digit n = (if n < 10 then char_of (48 + n) else char_of (87 + n))"

definition json_escape :: "char \<Rightarrow> string" where
  "json_escape c =
     (let n = (of_char c :: nat) in
      if n = 34 then [CHR 0x5C, CHR 0x22]
      else if n = 92 then [CHR 0x5C, CHR 0x5C]
      else if n = 8 then [CHR 0x5C, CHR ''b'']
      else if n = 9 then [CHR 0x5C, CHR ''t'']
      else if n = 10 then [CHR 0x5C, CHR ''n'']
      else if n = 12 then [CHR 0x5C, CHR ''f'']
      else if n = 13 then [CHR 0x5C, CHR ''r'']
      else if n < 32 then [CHR 0x5C, CHR ''u'', CHR ''0'', CHR ''0'', hex_digit (n div 16), hex_digit (n mod 16)]
      else [c])"

definition JSON_stringify_string :: "string \<Rightarrow> string" where
  "JSON_stringify_string s = CHR 0x22 # concat (map json_escape s) @ [CHR 0x22]"

subsection \<open>Conversions and property access\<close>

text \<open>ToBoolean.\<close>

fun truthy :: "jsval \<Rightarrow> bool" where
  "truthy JUndef = False"
| "truthy JNull = False"
| "truthy (JBool b) = b"
| "truthy (JNum n) = (n \<noteq> 0)"
| "truthy (JStr s) = (s \<noteq> [])"
| "truthy (JArr xs) = True"
| "truthy (JObj kvs) = True"
| "truthy (JSub sq) = True"

text \<open>
  ToString, as a template literal and string concatenation apply it, and
  \<^verbatim>\<open>Array.prototype.join\<close> on an array of values (\<^verbatim>\<open>null\<close> and \<^verbatim>\<open>undefined\<close>
  elements give the empty string).
\<close>

fun js_to_string :: "jsval \<Rightarrow> string"
and js_join :: "string \<Rightarrow> jsval list \<Rightarrow> string"
and js_join_item :: "jsval \<Rightarrow> string" where
  "js_to_string JUndef = ''undefined''"
| "js_to_string JNull = ''null''"
| "js_to_string (JBool b) = (if b then ''true'' else ''false'')"
| "js_to_string (JNum n) = show_int n"
| "js_to_string (JStr s) = s"
| "js_to_string (JArr xs) = js_join '','' xs"
| "js_to_string (JObj kvs) = ''[object Object]''"
| "js_to_string (JSub sq) = ''[object Object]''"
| "js_join sep [] = []"
| "js_join sep [x] = js_join_item x"
| "js_join sep (x # y # ys) = js_join_item x @ sep @ js_join sep (y # ys)"
| "js_join_item JUndef = []"
| "js_join_item JNull = []"
| "js_join_item (JBool b) = js_to_string (JBool b)"
| "js_join_item (JNum n) = js_to_string (JNum n)"
| "js_join_item (JStr s) = js_to_string (JStr s)"
| "js_join_item (JArr xs) = js_to_string (JArr xs)"
| "js_join_item (JObj kvs) = js_to_string (JObj kvs)"
| "js_join_item (JSub sq) = js_to_string (JSub sq)"

section \<open>Errors\<close>

text \<open>
  An exception is a value: the class of the thrown object and its \<^verbatim>\<open>message\<close>. A
  function that can throw returns \<open>error + 'a\<close>, with \<open>Inl\<close> for the exception.

  The two error classes of the library build their message in the constructor as
  \<^verbatim>\<open>`[QueryParseError] ${message} | Context: ${context}`\<close>. \<^verbatim>\<open>handleError\<close> calls the
  constructor with one argument, so the constructor's own \<^verbatim>\<open>context\<close> is \<^verbatim>\<open>undefined\<close>.
  It is only ever called with \<^verbatim>\<open>SQLGenerationError\<close>.

  A \<open>TypeError\<close> is thrown by the runtime; its message is the one of V8 (Node.js).
\<close>

datatype error_name = QueryParseError | SQLGenerationError | TypeError

datatype error = Error (err_name: error_name) (err_message: string)

definition class_label :: "error_name \<Rightarrow> string" where
  "class_label cls =
     (case cls of QueryParseError \<Rightarrow> ''QueryParseError''
      | SQLGenerationError \<Rightarrow> ''SQLGenerationError''
      | TypeError \<Rightarrow> ''TypeError'')"

definition new_Error :: "error_name \<Rightarrow> string \<Rightarrow> string \<Rightarrow> error" where
  "new_Error cls msg context =
     Error cls (''['' @ class_label cls @ ''] '' @ msg @ '' | Context: '' @ context)"

definition handleError :: "string \<Rightarrow> string \<Rightarrow> error_name \<Rightarrow> error" where
  "handleError errMsg context ErrorType =
     new_Error ErrorType (errMsg @ '' | Context: '' @ JSON_stringify_string context) ''undefined''"

definition not_a_function :: "string \<Rightarrow> error" where
  "not_a_function expr = Error TypeError (expr @ '' is not a function'')"

definition cannot_read :: "jsval \<Rightarrow> string \<Rightarrow> error" where
  "cannot_read v prop =
     Error TypeError (''Cannot read properties of '' @ js_to_string v @
       '' (reading '' @ [CHR 0x27] @ prop @ [CHR 0x27] @ '')'')"

text \<open>
  The \<^verbatim>\<open>catch\<close> block of \<^verbatim>\<open>parseMongoQuery\<close>: whatever was thrown while a key was
  processed is replaced by a new \<^verbatim>\<open>QueryParseError\<close> built from its message and the
  context of the frame.
\<close>

definition rethrow :: "string \<Rightarrow> error + 'a \<Rightarrow> error + 'a" where
  "rethrow context r =
     (case r of Inl e \<Rightarrow> Inl (new_Error QueryParseError (err_message e) context)
      | Inr x \<Rightarrow> Inr x)"

section \<open>Operator table and plugin registry\<close>

definition OPERATORS_MYSQL :: "string \<Rightarrow> string option" where
  "OPERATORS_MYSQL = map_of
     [(''$eq'', ''=''), (''$ne'', ''<>''), (''$gt'', ''>''), (''$gte'', ''>=''),
      (''$lt'', ''<''), (''$lte'', ''<=''), (''$in'', ''IN''), (''$nin'', ''NOT IN''),
      (''$and'', ''AND''), (''$or'', ''OR''), (''$not'', ''NOT''),
      (''$regex'', ''REGEXP''), (''$like'', ''LIKE'')]"

text \<open>
  A plugin handler receives the field, the operand, the two arrays it may change and
  the context; it returns nothing. The model hands it the arrays and gets them back.
  \<^verbatim>\<open>OperatorPlugins\<close> is a global array that \<^verbatim>\<open>registerOperatorPlugin\<close> appends to;
  the translator reads it, so it is an argument of every function of the translator.
  The loop over the array stops at the first plugin of the operator.
\<close>

type_synonym handler =
  "string \<Rightarrow> jsval \<Rightarrow> string list \<Rightarrow> param list \<Rightarrow> string \<Rightarrow> error + (string list \<times> param list)"

type_synonym plugins = "(string \<times> handler) list"

definition registerOperatorPlugin :: "string \<Rightarrow> handler \<Rightarrow> plugins \<Rightarrow> plugins" where
  "registerOperatorPlugin operator h OperatorPlugins = OperatorPlugins @ [(operator, h)]"

fun find_plugin :: "plugins \<Rightarrow> string \<Rightarrow> handler option" where
  "find_plugin [] operator = None"
| "find_plugin ((operator', h) # rest) operator =
     (if operator' = operator then Some h else find_plugin rest operator)"

section \<open>Property access\<close>

text \<open>
  \<^verbatim>\<open>v.k\<close> for the property names the library reads by name (\<^verbatim>\<open>alias\<close>, \<^verbatim>\<open>tableName\<close>,
  \<^verbatim>\<open>joinType\<close>, \<^verbatim>\<open>on\<close>, \<^verbatim>\<open>$and\<close>, \<^verbatim>\<open>_id\<close> and the update operators): none of them is
  an array index, \<^verbatim>\<open>length\<close>, a member of \<^verbatim>\<open>SubQuery\<close> or a name inherited from
  \<^verbatim>\<open>Object.prototype\<close>, so only a plain object can have one.
\<close>

definition get_prop :: "jsval \<Rightarrow> string \<Rightarrow> error + jsval" where
  "get_prop v k =
     (case v of
        JUndef \<Rightarrow> Inl (cannot_read v k)
      | JNull \<Rightarrow> Inl (cannot_read v k)
      | JObj kvs \<Rightarrow> Inr (case map_of kvs k of Some x \<Rightarrow> x | None \<Rightarrow> JUndef)
      | _ \<Rightarrow> Inr JUndef)"

text \<open>The keys \<^verbatim>\<open>0 .. n-1\<close> of an array or a string.\<close>

definition index_keys :: "nat \<Rightarrow> string list" where
  "index_keys n = map show_nat [0..<n]"

text \<open>
  The own enumerable properties of an instance of \<^verbatim>\<open>MongoQueryBuilder\<close> and of
  \<^verbatim>\<open>SubQuery\<close>, in the order the constructors assign them.
\<close>

definition builder_props :: "builder \<Rightarrow> (string \<times> jsval) list" where
  "builder_props b =
     [(''tableName'', JStr (qb_tableName b)),
      (''filter'', qb_filter b),
      (''projection'', (case qb_projection b of None \<Rightarrow> JNull | Some fs \<Rightarrow> JArr (map JStr fs))),
      (''joinConfigs'', JArr (qb_joinConfigs b)),
      (''sortClause'', qb_sortClause b),
      (''limitValue'', qb_limitValue b),
      (''offsetValue'', qb_offsetValue b)]"

definition subquery_props :: "subquery \<Rightarrow> (string \<times> jsval) list" where
  "subquery_props sq =
     [(''queryBuilder'', JObj (builder_props (queryBuilder sq))),
      (''cachedSQL'', (case cachedSQL sq of None \<Rightarrow> JNull | Some s \<Rightarrow> JStr s))]"

text \<open>\<^verbatim>\<open>Object.keys(v)\<close>.\<close>

definition Object_keys :: "jsval \<Rightarrow> error + string list" where
  "Object_keys v =
     (case v of
        JUndef \<Rightarrow> Inl (Error TypeError ''Cannot convert undefined or null to object'')
      | JNull \<Rightarrow> Inl (Error TypeError ''Cannot convert undefined or null to object'')
      | JStr s \<Rightarrow> Inr (index_keys (length s))
      | JArr xs \<Rightarrow> Inr (index_keys (length xs))
      | JObj kvs \<Rightarrow> Inr (map fst kvs)
      | JSub sq \<Rightarrow> Inr (map fst (subquery_props sq))
      | _ \<Rightarrow> Inr [])"

section \<open>Projection and join helpers\<close>

text \<open>
  \<^verbatim>\<open>prepareJoinMappings\<close> fills an object, one assignment \<^verbatim>\<open>mappings[alias] = {...}\<close>
  per join configuration; the model returns the assignments in order. Reading
  \<^verbatim>\<open>join.alias\<close> throws when the configuration is \<^verbatim>\<open>null\<close> or \<^verbatim>\<open>undefined\<close>.
\<close>

definition prop_or_undef :: "jsval \<Rightarrow> string \<Rightarrow> jsval" where
  "prop_or_undef v k = (case get_prop v k of Inl e \<Rightarrow> JUndef | Inr x \<Rightarrow> x)"

fun prepareJoinMappings :: "jsval list \<Rightarrow> error + (string \<times> jsval) list" where
  "prepareJoinMappings [] = Inr []"
| "prepareJoinMappings (join # rest) =
     (case get_prop join ''alias'' of
        Inl e \<Rightarrow> Inl e
      | Inr a \<Rightarrow>
          (let alias = (if truthy a then a else prop_or_undef join ''tableName'');
               mapping = JObj [(''tableName'', prop_or_undef join ''tableName''),
                               (''joinType'', prop_or_undef join ''joinType''),
                               (''on'', prop_or_undef join ''on''),
                               (''alias'', alias)]
           in (case prepareJoinMappings rest of
                 Inl e \<Rightarrow> Inl e
               | Inr mappings \<Rightarrow> Inr ((js_to_string alias, mapping) # mappings))))"

text \<open>
  Whether \<^verbatim>\<open>joinMappings[alias]\<close> is truthy. The object inherits from
  \<^verbatim>\<open>Object.prototype\<close>, and an assignment to the key \<^verbatim>\<open>__proto__\<close> replaces its
  prototype by the assigned mapping.
\<close>

definition Object_prototype_names :: "string list" where
  "Object_prototype_names =
     [''constructor'', ''__defineGetter__'', ''__defineSetter__'', ''hasOwnProperty'',
      ''__lookupGetter__'', ''__lookupSetter__'', ''isPrototypeOf'',
      ''propertyIsEnumerable'', ''toString'', ''valueOf'', ''__proto__'', ''toLocaleString'']"

definition joinMappings_has :: "(string \<times> jsval) list \<Rightarrow> string \<Rightarrow> bool" where
  "joinMappings_has mappings alias =
     (alias \<in> set (map fst mappings) \<or> alias \<in> set Object_prototype_names \<or>
      (case filter (\<lambda>kv. fst kv = ''__proto__'') mappings of
         [] \<Rightarrow> False
       | kv # kvs \<Rightarrow> truthy (prop_or_undef (snd (last (kv # kvs))) alias)))"

text \<open>\<^verbatim>\<open>key.split(".")\<close>, of which the code reads \<^verbatim>\<open>parts[0]\<close> and \<^verbatim>\<open>parts[1]\<close>.\<close>

definition split_part0 :: "string \<Rightarrow> string" where
  "split_part0 key = takeWhile (\<lambda>c. c \<noteq> CHR ''.'') key"

definition split_part1 :: "string \<Rightarrow> string" where
  "split_part1 key = takeWhile (\<lambda>c. c \<noteq> CHR ''.'') (drop 1 (dropWhile (\<lambda>c. c \<noteq> CHR ''.'') key))"

definition parseProjectStageWithJoinsOptimized ::
  "string list \<Rightarrow> (string \<times> jsval) list \<Rightarrow> string \<Rightarrow> string" where
  "parseProjectStageWithJoinsOptimized projectFields joinMappings mainTableName =
     join_str '', '' (map (\<lambda>key.
        if CHR ''.'' \<in> set key then
          (let alias = split_part0 key; col = split_part1 key in
           if joinMappings_has joinMappings alias
           then alias @ ''.'' @ col @ '' AS '' @ alias @ ''_'' @ col
           else mainTableName @ ''.'' @ key @ '' AS '' @ mainTableName @ ''_'' @ key)
        else mainTableName @ ''.'' @ key @ '' AS '' @ mainTableName @ ''_'' @ key) projectFields)"

fun generateJoinClause_items :: "jsval list \<Rightarrow> error + string list" where
  "generateJoinClause_items [] = Inr []"
| "generateJoinClause_items (join # rest) =
     (case get_prop join ''alias'' of
        Inl e \<Rightarrow> Inl e
      | Inr a \<Rightarrow>
          (let aliasPart = (if truthy a then '' AS '' @ js_to_string a else []);
               item = '' '' @ js_to_string (prop_or_undef join ''joinType'') @ '' '' @
                      js_to_string (prop_or_undef join ''tableName'') @ aliasPart @ '' ON '' @
                      js_to_string (prop_or_undef join ''on'')
           in (case generateJoinClause_items rest of
                 Inl e \<Rightarrow> Inl e
               | Inr items \<Rightarrow> Inr (item # items))))"

definition generateJoinClause :: "jsval list \<Rightarrow> error + string" where
  "generateJoinClause joinConfigs =
     (case generateJoinClause_items joinConfigs of
        Inl e \<Rightarrow> Inl e
      | Inr items \<Rightarrow> Inr (join_str '' '' items))"

text \<open>
  The parts of \<^verbatim>\<open>MongoQueryBuilder.toSQL\<close> before and after the translation of the
  filter: the SELECT list, the JOIN clause, and ORDER BY with the paging.
\<close>

definition select_clause :: "string list option \<Rightarrow> jsval list \<Rightarrow> string \<Rightarrow> error + string" where
  "select_clause projection joinConfigs tableName =
     (case projection of
        None \<Rightarrow> Inr ''*''
      | Some fields \<Rightarrow>
          if joinConfigs \<noteq> [] then
            (case prepareJoinMappings joinConfigs of
               Inl e \<Rightarrow> Inl e
             | Inr mappings \<Rightarrow> Inr (parseProjectStageWithJoinsOptimized fields mappings tableName))
          else Inr (join_str '', '' fields))"

definition join_clause :: "jsval list \<Rightarrow> error + string" where
  "join_clause joinConfigs =
     (if joinConfigs \<noteq> [] then generateJoinClause joinConfigs else Inr [])"

definition order_and_paging :: "jsval \<Rightarrow> jsval \<Rightarrow> jsval \<Rightarrow> string" where
  "order_and_paging sortClause limitValue offsetValue =
     (if truthy sortClause then '' ORDER BY '' @ js_to_string sortClause else []) @
     (if limitValue \<noteq> JNull then
        '' LIMIT '' @ js_to_string limitValue @
        (if offsetValue \<noteq> JNull then '' OFFSET '' @ js_to_string offsetValue else [])
      else if offsetValue \<noteq> JNull then
        '' LIMIT 18446744073709551615 OFFSET '' @ js_to_string offsetValue
      else [])"

section \<open>The filter translator\<close>

text \<open>
  The building blocks of \<^verbatim>\<open>parseMongoQuery\<close> that push a condition and parameters.
  The arrays \<^verbatim>\<open>conditions\<close> and \<^verbatim>\<open>params\<close> are passed in and returned.
\<close>

text \<open>\<^verbatim>\<open>conditions.push(`${key} = ?`); params.push(value)\<close>.\<close>

definition push_equality ::
  "string \<Rightarrow> jsval \<Rightarrow> string list \<Rightarrow> param list \<Rightarrow> string list \<times> param list" where
  "push_equality key v conditions params = (conditions @ [key @ '' = ?''], params @ [PVal v])"

text \<open>
  The end of the branch for an operator object: several conditions of one field are
  joined by AND in parentheses, a single one is pushed as it is, none pushes nothing.
\<close>

definition push_field_conditions :: "string list \<Rightarrow> string list \<Rightarrow> string list" where
  "push_field_conditions fieldConds conditions =
     (case fieldConds of
        [] \<Rightarrow> conditions
      | [c] \<Rightarrow> conditions @ [c]
      | c # d # ds \<Rightarrow> conditions @ [''('' @ join_str '' AND '' fieldConds @ '')''])"

text \<open>What calling \<^verbatim>\<open>value.map\<close> throws when \<^verbatim>\<open>value\<close> is not an array.\<close>

definition map_not_callable :: "jsval \<Rightarrow> error" where
  "map_not_callable v =
     (case v of JUndef \<Rightarrow> cannot_read v ''map'' | JNull \<Rightarrow> cannot_read v ''map''
      | _ \<Rightarrow> not_a_function ''value.map'')"

text \<open>The first test of \<^verbatim>\<open>handleArrayOperators\<close>, for a value that is no array or is empty.\<close>

definition empty_array_operator :: "string \<Rightarrow> string list \<Rightarrow> string list" where
  "empty_array_operator operator conditions =
     (if operator = ''$in'' then conditions @ [''1=0'']
      else if operator = ''$nin'' then conditions @ [''1=1'']
      else conditions)"

text \<open>\<^verbatim>\<open>v instanceof SubQuery\<close>, with the instance when it holds.\<close>

definition as_SubQuery :: "jsval \<Rightarrow> subquery option" where
  "as_SubQuery v = (case v of JSub sq \<Rightarrow> Some sq | _ \<Rightarrow> None)"

definition is_SubQuery :: "jsval \<Rightarrow> bool" where
  "is_SubQuery v = (as_SubQuery v \<noteq> None)"


text \<open>
  \<^verbatim>\<open>for (let key in query)\<close> on a string enumerates its indices, with the characters as
  values; an index never starts with \<^verbatim>\<open>$\<close> and a character is no object, so each one
  takes the last branch of the loop body. On an instance of \<^verbatim>\<open>SubQuery\<close> it enumerates
  the two fields: \<^verbatim>\<open>queryBuilder\<close> holds an object that is no \<^verbatim>\<open>SubQuery\<close>, whose seven
  property names do not start with \<^verbatim>\<open>$\<close>, and \<^verbatim>\<open>cachedSQL\<close> holds \<^verbatim>\<open>null\<close> or a string.
\<close>

definition for_in_string :: "string \<Rightarrow> string list \<Rightarrow> param list \<Rightarrow> string list \<times> param list" where
  "for_in_string s conditions params =
     foldl (\<lambda>(cs, ps) (i, c). push_equality (show_nat i) (JStr [c]) cs ps)
       (conditions, params) (zip [0..<length s] s)"

definition for_in_instance :: "subquery \<Rightarrow> string list \<Rightarrow> param list \<Rightarrow> string list \<times> param list" where
  "for_in_instance sq conditions params =
     (let (fieldConds, params1) =
            foldl (\<lambda>(cs, ps) (op, v). push_equality ''queryBuilder'' v cs ps)
              ([], params) (builder_props (queryBuilder sq));
          conditions1 = push_field_conditions fieldConds conditions
      in push_equality ''cachedSQL'' (case cachedSQL sq of None \<Rightarrow> JNull | Some s \<Rightarrow> JStr s)
           conditions1 params1)"

text \<open>
  The translator. Every function takes the plugin registry first; apart from that the
  arguments are those of the source.

  \<^item> \<open>for_in_query\<close>, \<open>for_in_entries\<close> and \<open>for_in_elements\<close> are the loop of
    \<^verbatim>\<open>parseMongoQuery\<close> over the keys of \<^verbatim>\<open>query\<close> (of an object, and of an array, whose
    keys are its indices); \<open>parse_key\<close> is the body of its \<^verbatim>\<open>try\<close> block, and
    \<open>rethrow\<close> its \<^verbatim>\<open>catch\<close> block.
  \<^item> \<open>map_parseMongoQuery\<close> is \<^verbatim>\<open>value.map((subQuery, idx) => parseMongoQuery(subQuery,
    params, `${context}->OR[${idx}]`))\<close>, with the label as an argument.
  \<^item> \<open>for_in_operators\<close> is the loop over the keys of an operator object.
  \<^item> \<open>push_subquery\<close> is the code shared by the three places that embed a subquery:
    \<^verbatim>\<open>toSQL()\<close>, then the condition \<^verbatim>\<open>field IN (...)\<close>, then \<^verbatim>\<open>getParams()\<close>.
    \<^verbatim>\<open>getParams\<close> reads only the field \<^verbatim>\<open>queryBuilder\<close>, which \<^verbatim>\<open>toSQL\<close> does not assign,
    so the model applies both to the instance as it was.
  \<^item> \<open>map_subqueries\<close> is the \<^verbatim>\<open>values.map\<close> of \<^verbatim>\<open>handleArrayOperators\<close> for an array
    that holds a subquery.
  \<^item> \<open>SubQuery_toSQL\<close> returns the result, the instance with its cache, and the number of
    calls of the wrapped builder's \<^verbatim>\<open>toSQL\<close> it made; \<open>SubQuery_getParams\<close> returns the
    result and that number.
  \<^item> The wrapped builder's \<^verbatim>\<open>toSQL\<close> does not change the builder.
\<close>

function (sequential) parseMongoQuery :: "plugins \<Rightarrow> jsval \<Rightarrow> param list \<Rightarrow> string \<Rightarrow> error + statement"
and for_in_query ::
  "plugins \<Rightarrow> jsval \<Rightarrow> string list \<Rightarrow> param list \<Rightarrow> string \<Rightarrow> error + (string list \<times> param list)"
and for_in_entries ::
  "plugins \<Rightarrow> (string \<times> jsval) list \<Rightarrow> string list \<Rightarrow> param list \<Rightarrow> string \<Rightarrow> error + (string list \<times> param list)"
and for_in_elements ::
  "plugins \<Rightarrow> nat \<Rightarrow> jsval list \<Rightarrow> string list \<Rightarrow> param list \<Rightarrow> string \<Rightarrow> error + (string list \<times> param list)"
and parse_key ::
  "plugins \<Rightarrow> string \<Rightarrow> jsval \<Rightarrow> string list \<Rightarrow> param list \<Rightarrow> string \<Rightarrow> error + (string list \<times> param list)"
and map_parseMongoQuery ::
  "plugins \<Rightarrow> jsval list \<Rightarrow> param list \<Rightarrow> string \<Rightarrow> string \<Rightarrow> nat \<Rightarrow> error + (string list \<times> param list)"
and for_in_operators ::
  "plugins \<Rightarrow> string \<Rightarrow> (string \<times> jsval) list \<Rightarrow> string list \<Rightarrow> param list \<Rightarrow> string \<Rightarrow> error + (string list \<times> param list)"
and handleLogicalOperators ::
  "plugins \<Rightarrow> string \<Rightarrow> jsval \<Rightarrow> string list \<Rightarrow> param list \<Rightarrow> string \<Rightarrow> error + (string list \<times> param list)"
and handleArrayOperators ::
  "plugins \<Rightarrow> string \<Rightarrow> jsval \<Rightarrow> string \<Rightarrow> string list \<Rightarrow> param list \<Rightarrow> string \<Rightarrow> error + (string list \<times> param list)"
and map_subqueries ::
  "plugins \<Rightarrow> jsval list \<Rightarrow> param list \<Rightarrow> error + (string list \<times> param list)"
and handleOperator ::
  "plugins \<Rightarrow> string \<Rightarrow> jsval \<Rightarrow> string \<Rightarrow> string list \<Rightarrow> param list \<Rightarrow> string \<Rightarrow> error + (string list \<times> param list)"
and push_subquery ::
  "plugins \<Rightarrow> subquery \<Rightarrow> string \<Rightarrow> string list \<Rightarrow> param list \<Rightarrow> error + (string list \<times> param list)"
and SubQuery_toSQL :: "plugins \<Rightarrow> subquery \<Rightarrow> (error + string) \<times> subquery \<times> nat"
and SubQuery_getParams :: "plugins \<Rightarrow> subquery \<Rightarrow> (error + param list) \<times> nat"
and MongoQueryBuilder_toSQL :: "plugins \<Rightarrow> builder \<Rightarrow> error + statement"
where
  "parseMongoQuery pl query params context =
     (case for_in_query pl query [] params context of
        Inl e \<Rightarrow> Inl e
      | Inr (conditions, params') \<Rightarrow>
          Inr (if conditions \<noteq> [] then join_str '' AND '' conditions else ''1=1'', params'))"

| "for_in_query pl (JObj kvs) conditions params context =
     for_in_entries pl kvs conditions params context"
| "for_in_query pl (JArr xs) conditions params context =
     for_in_elements pl 0 xs conditions params context"
| "for_in_query pl (JStr s) conditions params context = Inr (for_in_string s conditions params)"
| "for_in_query pl (JSub sq) conditions params context = Inr (for_in_instance sq conditions params)"
| "for_in_query pl JUndef conditions params context = Inr (conditions, params)"
| "for_in_query pl JNull conditions params context = Inr (conditions, params)"
| "for_in_query pl (JBool b) conditions params context = Inr (conditions, params)"
| "for_in_query pl (JNum n) conditions params context = Inr (conditions, params)"

| "for_in_entries pl [] conditions params context = Inr (conditions, params)"
| "for_in_entries pl ((key, v) # rest) conditions params context =
     (case rethrow context (parse_key pl key v conditions params context) of
        Inl e \<Rightarrow> Inl e
      | Inr (conditions', params') \<Rightarrow> for_in_entries pl rest conditions' params' context)"

| "for_in_elements pl i [] conditions params context = Inr (conditions, params)"
| "for_in_elements pl i (v # rest) conditions params context =
     (case rethrow context (parse_key pl (show_nat i) v conditions params context) of
        Inl e \<Rightarrow> Inl e
      | Inr (conditions', params') \<Rightarrow> for_in_elements pl (Suc i) rest conditions' params' context)"

| "parse_key pl key v conditions params context =
     (if startsWith_dollar key then
        (if key = ''$or'' then
           (case v of
              JArr subQueries \<Rightarrow>
                (case map_parseMongoQuery pl subQueries params context ''OR'' 0 of
                   Inl e \<Rightarrow> Inl e
                 | Inr (conds, params') \<Rightarrow>
                     (let orConditions = filter (\<lambda>cond. cond \<noteq> [] \<and> cond \<noteq> ''1=1'') conds in
                      if orConditions \<noteq> []
                      then Inr (conditions @ [''('' @ join_str '' OR '' orConditions @ '')''], params')
                      else Inr (conditions @ [''1=0''], params')))
            | _ \<Rightarrow> Inl (map_not_callable v))
         else if key = ''$nor'' then
           (case v of
              JArr subQueries \<Rightarrow>
                (case map_parseMongoQuery pl subQueries params context ''NOR'' 0 of
                   Inl e \<Rightarrow> Inl e
                 | Inr (conds, params') \<Rightarrow>
                     (let norConditions = filter (\<lambda>cond. cond \<noteq> [] \<and> cond \<noteq> ''1=1'') conds in
                      if norConditions \<noteq> []
                      then Inr (conditions @ [''NOT ('' @ join_str '' OR '' norConditions @ '')''], params')
                      else Inr (conditions @ [''1=1''], params')))
            | _ \<Rightarrow> Inl (map_not_callable v))
         else if key = ''$and'' then
           (case v of
              JArr subQueries \<Rightarrow>
                (case map_parseMongoQuery pl subQueries params context ''AND'' 0 of
                   Inl e \<Rightarrow> Inl e
                 | Inr (conds, params') \<Rightarrow>
                     (let andConditions = filter (\<lambda>cond. cond \<noteq> []) conds in
                      if andConditions \<noteq> []
                      then Inr (conditions @ [join_str '' AND '' andConditions], params')
                      else Inr (conditions, params')))
            | _ \<Rightarrow> Inl (map_not_callable v))
         else handleLogicalOperators pl key v conditions params context)
      else
        (case v of
           JSub sq \<Rightarrow> push_subquery pl sq key conditions params
         | JObj ops \<Rightarrow>
             (case for_in_operators pl key ops [] params context of
                Inl e \<Rightarrow> Inl e
              | Inr (fieldConds, params') \<Rightarrow>
                  Inr (push_field_conditions fieldConds conditions, params'))
         | _ \<Rightarrow> Inr (push_equality key v conditions params)))"

| "map_parseMongoQuery pl [] params context label idx = Inr ([], params)"
| "map_parseMongoQuery pl (subQuery # rest) params context label idx =
     (case parseMongoQuery pl subQuery params
             (context @ ''->'' @ label @ ''['' @ show_nat idx @ '']'') of
        Inl e \<Rightarrow> Inl e
      | Inr (cond, params') \<Rightarrow>
          (case map_parseMongoQuery pl rest params' context label (Suc idx) of
             Inl e \<Rightarrow> Inl e
           | Inr (conds, params'') \<Rightarrow> Inr (cond # conds, params'')))"

| "for_in_operators pl key [] fieldConds params context = Inr (fieldConds, params)"
| "for_in_operators pl key ((op, opValue) # rest) fieldConds params context =
     (case
        (if startsWith_dollar op then
           (case (if op = ''$in'' then as_SubQuery opValue else None) of
              Some sq \<Rightarrow> push_subquery pl sq key fieldConds params
            | None \<Rightarrow>
              if op \<in> set [''$in'', ''$nin'', ''$all'']
              then handleArrayOperators pl key opValue op fieldConds params context
              else handleOperator pl key opValue op fieldConds params context)
         else Inr (push_equality key opValue fieldConds params)) of
        Inl e \<Rightarrow> Inl e
      | Inr (fieldConds', params') \<Rightarrow> for_in_operators pl key rest fieldConds' params' context)"

| "handleLogicalOperators pl operator v conditions params context =
     (case v of
        JArr (subQuery # rest) \<Rightarrow>
          (case map_parseMongoQuery pl (subQuery # rest) params context operator 0 of
             Inl e \<Rightarrow> Inl e
           | Inr (conds, params') \<Rightarrow>
               (let subConds = map (\<lambda>c. ''('' @ c @ '')'') conds in
                if operator = ''$nor''
                then Inr (conditions @ [''NOT ('' @ join_str '' OR '' subConds @ '')''], params')
                else Inr (conditions @
                       [''('' @ join_str ('' '' @ (case OPERATORS_MYSQL operator of
                                                    Some sqlOperator \<Rightarrow> sqlOperator
                                                  | None \<Rightarrow> operator) @ '' '') subConds @ '')''],
                     params')))
      | _ \<Rightarrow> Inr (conditions @ [if operator = ''$and'' then ''1=1'' else ''1=0''], params))"

| "handleArrayOperators pl field vs operator conditions params context =
     (case vs of
        JArr (x # xs) \<Rightarrow>
          (if list_ex is_SubQuery (x # xs) then
             (case map_subqueries pl (x # xs) params of
                Inl e \<Rightarrow> Inl e
              | Inr (subQueries, params') \<Rightarrow>
                  Inr (conditions @ [field @ '' IN ('' @ join_str '', '' subQueries @ '')''], params'))
           else if operator = ''$in'' then
             Inr (conditions @
                    [field @ '' IN ('' @ join_str '', '' (map (\<lambda>v. ''?'') (x # xs)) @ '')''],
                  params @ map PVal (x # xs))
           else if operator = ''$nin'' then
             Inr (conditions @
                    [field @ '' NOT IN ('' @ join_str '', '' (map (\<lambda>v. ''?'') (x # xs)) @ '')''],
                  params @ map PVal (x # xs))
           else if operator = ''$all'' then
             Inr (conditions @
                    [''('' @ join_str '' AND ''
                       (map (\<lambda>v. ''JSON_CONTAINS('' @ field @ '', ?)'') (x # xs)) @ '')''],
                  params @ map PJson (x # xs))
           else Inr (conditions, params))
      | _ \<Rightarrow> Inr (empty_array_operator operator conditions, params))"

| "map_subqueries pl [] params = Inr ([], params)"
| "map_subqueries pl (v # rest) params =
     (case as_SubQuery v of
        Some sq \<Rightarrow>
          (case SubQuery_getParams pl sq of
             (Inl e, n) \<Rightarrow> Inl e
           | (Inr subParams, n) \<Rightarrow>
               (case SubQuery_toSQL pl sq of
                  (Inl e, sq', m) \<Rightarrow> Inl e
                | (Inr subSql, sq', m) \<Rightarrow>
                    (case map_subqueries pl rest (params @ subParams) of
                       Inl e \<Rightarrow> Inl e
                     | Inr (items, params') \<Rightarrow> Inr (subSql # items, params'))))
      | None \<Rightarrow>
          (case map_subqueries pl rest (params @ [PVal v]) of
             Inl e \<Rightarrow> Inl e
           | Inr (items, params') \<Rightarrow> Inr (''?'' # items, params')))"

| "handleOperator pl field opValue operator conditions params context =
     (case find_plugin pl operator of
        Some h \<Rightarrow> h field opValue conditions params context
      | None \<Rightarrow>
          (case opValue of
             JSub sq \<Rightarrow> push_subquery pl sq field conditions params
           | _ \<Rightarrow>
             if operator = ''$exists'' then
               Inr (conditions @ [field @ '' '' @ (if truthy opValue then ''IS NOT NULL'' else ''IS NULL'')],
                    params)
             else if operator = ''$size'' then
               Inr (conditions @ [''JSON_LENGTH('' @ field @ '') = ?''], params @ [PVal opValue])
             else if operator = ''$elemMatch'' then
               Inr (conditions @ [''JSON_CONTAINS('' @ field @ '', ?)''], params @ [PJson opValue])
             else if operator = ''$regex'' then
               Inr (conditions @ [field @ '' REGEXP ?''], params @ [PVal opValue])
             else if operator = ''$like'' then
               Inr (conditions @ [field @ '' LIKE ?''], params @ [PVal opValue])
             else
               (case OPERATORS_MYSQL operator of
                  None \<Rightarrow>
                    Inl (handleError
                      (''Unsupported operator '' @ [CHR 0x22] @ operator @ [CHR 0x22] @
                       '' for field '' @ [CHR 0x22] @ field @ [CHR 0x22])
                      context SQLGenerationError)
                | Some sqlOperator \<Rightarrow>
                    Inr (conditions @ [field @ '' '' @ sqlOperator @ '' ?''],
                         params @ [PVal opValue]))))"

| "push_subquery pl sq field conditions params =
     (case SubQuery_toSQL pl sq of
        (Inl e, sq', n) \<Rightarrow> Inl e
      | (Inr subResult, sq', n) \<Rightarrow>
          (case SubQuery_getParams pl sq of
             (Inl e, m) \<Rightarrow> Inl e
           | (Inr subParams, m) \<Rightarrow>
               Inr (conditions @ [field @ '' IN '' @ subResult], params @ subParams)))"

| "SubQuery_toSQL pl (SubQuery b cache) =
     (case cache of
        Some (c # cs) \<Rightarrow> (Inr (c # cs), SubQuery b cache, 0)
      | _ \<Rightarrow>
          (case MongoQueryBuilder_toSQL pl b of
             Inl e \<Rightarrow> (Inl e, SubQuery b cache, 1)
           | Inr (sql, ps) \<Rightarrow>
               (Inr (''('' @ sql @ '')''), SubQuery b (Some (''('' @ sql @ '')'')), 1)))"

| "SubQuery_getParams pl (SubQuery b cache) =
     (case MongoQueryBuilder_toSQL pl b of
        Inl e \<Rightarrow> (Inl e, 1)
      | Inr (sql, ps) \<Rightarrow> (Inr ps, 1))"

| "MongoQueryBuilder_toSQL pl (MongoQueryBuilder tableName flt projection joinConfigs sortClause limitValue offsetValue) =
     (case select_clause projection joinConfigs tableName of
        Inl e \<Rightarrow> Inl e
      | Inr selectClause \<Rightarrow>
          (case join_clause joinConfigs of
             Inl e \<Rightarrow> Inl e
           | Inr joinClause \<Rightarrow>
               (case parseMongoQuery pl flt [] ''SELECT'' of
                  Inl e \<Rightarrow> Inl e
                | Inr (whereClause, params) \<Rightarrow>
                    Inr (''SELECT '' @ selectClause @ '' FROM '' @ tableName @ joinClause @
                         (if whereClause \<noteq> [] then '' WHERE '' @ whereClause else []) @
                         order_and_paging sortClause limitValue offsetValue,
                         params))))"

  by pat_completeness auto

text \<open>
  Every call is on a part of the value it was made for, or on the same value by a
  function further down the chain of calls.
\<close>

termination
  by (relation "measure
        (case_sum
          (case_sum
            (case_sum (\<lambda>(pl, q, ps, c). 3 * size q + 2)
              (case_sum (\<lambda>(pl, q, cs, ps, c). 3 * size q + 1)
                        (\<lambda>(pl, kvs, cs, ps, c). 3 * size_list (size_prod (\<lambda>k. 0) size) kvs)))
            (case_sum
              (case_sum (\<lambda>(pl, i, xs, cs, ps, c). 3 * size_list size xs)
                        (\<lambda>(pl, k, v, cs, ps, c). 3 * size v + 2))
              (case_sum (\<lambda>(pl, xs, ps, c, l, i). 3 * size_list size xs)
                        (\<lambda>(pl, k, ops, cs, ps, c). 3 * size_list (size_prod (\<lambda>k. 0) size) ops))))
          (case_sum
            (case_sum
              (case_sum (\<lambda>(pl, operator, v, cs, ps, c). 3 * size v + 1)
                        (\<lambda>(pl, field, v, operator, cs, ps, c). 3 * size v + 1))
              (case_sum (\<lambda>(pl, xs, ps). 3 * size_list size xs)
                        (\<lambda>(pl, field, v, operator, cs, ps, c). 3 * size v + 2)))
            (case_sum
              (case_sum (\<lambda>(pl, sq, field, cs, ps). 3 * size sq + 2)
                        (\<lambda>(pl, sq). 3 * size sq + 1))
              (case_sum (\<lambda>(pl, sq). 3 * size sq + 1)
                        (\<lambda>(pl, b). 3 * size b + 1)))))")
     (auto simp: as_SubQuery_def split: if_splits jsval.splits)

section \<open>The statement builders\<close>

subsection \<open>Enumeration of properties\<close>

text \<open>
  \<^verbatim>\<open>for (let key in v)\<close> with \<^verbatim>\<open>v[key]\<close>: the own enumerable properties of a value,
  in order. \<^verbatim>\<open>null\<close>, \<^verbatim>\<open>undefined\<close>, numbers and booleans have none.
\<close>

definition for_in :: "jsval \<Rightarrow> (string \<times> jsval) list" where
  "for_in v =
     (case v of
        JObj kvs \<Rightarrow> kvs
      | JArr xs \<Rightarrow> zip (index_keys (length xs)) xs
      | JStr s \<Rightarrow> zip (index_keys (length s)) (map (\<lambda>c. JStr [c]) s)
      | JSub sq \<Rightarrow> subquery_props sq
      | _ \<Rightarrow> [])"

text \<open>
  \<^verbatim>\<open>obj.hasOwnProperty(k)\<close>. The call throws on \<^verbatim>\<open>null\<close> and \<^verbatim>\<open>undefined\<close>, and on
  an object with an own property of that name, which is no function. Arrays and
  strings own their indices and \<^verbatim>\<open>length\<close>.
\<close>

definition hasOwnProperty :: "jsval \<Rightarrow> string \<Rightarrow> error + bool" where
  "hasOwnProperty obj k =
     (case obj of
        JUndef \<Rightarrow> Inl (cannot_read obj ''hasOwnProperty'')
      | JNull \<Rightarrow> Inl (cannot_read obj ''hasOwnProperty'')
      | JObj kvs \<Rightarrow>
          if ''hasOwnProperty'' \<in> set (map fst kvs)
          then Inl (not_a_function ''obj.hasOwnProperty'')
          else Inr (k \<in> set (map fst kvs))
      | JArr xs \<Rightarrow> Inr (k \<in> set (index_keys (length xs)) \<or> k = ''length'')
      | JStr s \<Rightarrow> Inr (k \<in> set (index_keys (length s)) \<or> k = ''length'')
      | JSub sq \<Rightarrow> Inr (k \<in> set (map fst (subquery_props sq)))
      | _ \<Rightarrow> Inr False)"

text \<open>\<^verbatim>\<open>obj[k]\<close> for an own property \<^verbatim>\<open>k\<close> of \<^verbatim>\<open>obj\<close>.\<close>

definition own_get :: "jsval \<Rightarrow> string \<Rightarrow> jsval" where
  "own_get obj k =
     (case map_of (for_in obj) k of
        Some v \<Rightarrow> v
      | None \<Rightarrow>
          (case obj of
             JArr xs \<Rightarrow> if k = ''length'' then JNum (int (length xs)) else JUndef
           | JStr s \<Rightarrow> if k = ''length'' then JNum (int (length s)) else JUndef
           | _ \<Rightarrow> JUndef))"

subsection \<open>Accumulating the filter\<close>

text \<open>
  The method \<^verbatim>\<open>query\<close> has the same body in the three builders that take a filter.
  It returns the new value of the field \<^verbatim>\<open>filter\<close>. \<^verbatim>\<open>this.filter.$and.push\<close> is a
  call of \<^verbatim>\<open>Array.prototype.push\<close> only when \<^verbatim>\<open>$and\<close> holds an array.
\<close>

fun set_prop :: "(string \<times> jsval) list \<Rightarrow> string \<Rightarrow> jsval \<Rightarrow> (string \<times> jsval) list" where
  "set_prop [] k v = [(k, v)]"
| "set_prop ((k', v') # rest) k v =
     (if k' = k then (k, v) # rest else (k', v') # set_prop rest k v)"

definition query_filter :: "jsval \<Rightarrow> jsval \<Rightarrow> error + jsval" where
  "query_filter flt queryObj =
     (case Object_keys flt of
        Inl e \<Rightarrow> Inl e
      | Inr keys \<Rightarrow>
          if keys = [] then Inr queryObj
          else if \<not> truthy (prop_or_undef flt ''$and'')
          then Inr (JObj [(''$and'', JArr [flt, queryObj])])
          else (case (flt, prop_or_undef flt ''$and'') of
                  (JObj kvs, JArr xs) \<Rightarrow> Inr (JObj (set_prop kvs ''$and'' (JArr (xs @ [queryObj]))))
                | _ \<Rightarrow> Inl (not_a_function ''this.filter.$and.push'')))"

subsection \<open>MongoQueryBuilder\<close>

definition MongoQueryBuilder_new :: "string \<Rightarrow> builder" where
  "MongoQueryBuilder_new tableName =
     MongoQueryBuilder tableName (JObj []) None [] (JStr []) JNull JNull"

definition MongoQueryBuilder_query :: "builder \<Rightarrow> jsval \<Rightarrow> error + builder" where
  "MongoQueryBuilder_query b queryObj =
     (case query_filter (qb_filter b) queryObj of
        Inl e \<Rightarrow> Inl e
      | Inr flt \<Rightarrow>
          Inr (MongoQueryBuilder (qb_tableName b) flt (qb_projection b) (qb_joinConfigs b)
                 (qb_sortClause b) (qb_limitValue b) (qb_offsetValue b)))"

definition MongoQueryBuilder_project :: "builder \<Rightarrow> string list option \<Rightarrow> builder" where
  "MongoQueryBuilder_project b columns =
     MongoQueryBuilder (qb_tableName b) (qb_filter b) columns (qb_joinConfigs b)
       (qb_sortClause b) (qb_limitValue b) (qb_offsetValue b)"

definition MongoQueryBuilder_join :: "builder \<Rightarrow> jsval list \<Rightarrow> builder" where
  "MongoQueryBuilder_join b joinConfigs =
     MongoQueryBuilder (qb_tableName b) (qb_filter b) (qb_projection b) joinConfigs
       (qb_sortClause b) (qb_limitValue b) (qb_offsetValue b)"

definition MongoQueryBuilder_sort :: "builder \<Rightarrow> jsval \<Rightarrow> builder" where
  "MongoQueryBuilder_sort b sortBy =
     MongoQueryBuilder (qb_tableName b) (qb_filter b) (qb_projection b) (qb_joinConfigs b)
       sortBy (qb_limitValue b) (qb_offsetValue b)"

definition MongoQueryBuilder_limit :: "builder \<Rightarrow> jsval \<Rightarrow> builder" where
  "MongoQueryBuilder_limit b n =
     MongoQueryBuilder (qb_tableName b) (qb_filter b) (qb_projection b) (qb_joinConfigs b)
       (qb_sortClause b) n (qb_offsetValue b)"

definition MongoQueryBuilder_skip :: "builder \<Rightarrow> jsval \<Rightarrow> builder" where
  "MongoQueryBuilder_skip b n =
     MongoQueryBuilder (qb_tableName b) (qb_filter b) (qb_projection b) (qb_joinConfigs b)
       (qb_sortClause b) (qb_limitValue b) n"

subsection \<open>MongoDeleteBuilder\<close>

record MongoDeleteBuilder =
  db_tableName :: string
  db_filter :: jsval
  db_singleDelete :: bool

definition MongoDeleteBuilder_new :: "string \<Rightarrow> MongoDeleteBuilder" where
  "MongoDeleteBuilder_new tableName =
     \<lparr>db_tableName = tableName, db_filter = JObj [], db_singleDelete = False\<rparr>"

definition MongoDeleteBuilder_query :: "MongoDeleteBuilder \<Rightarrow> jsval \<Rightarrow> error + MongoDeleteBuilder" where
  "MongoDeleteBuilder_query b queryObj =
     (case query_filter (db_filter b) queryObj of
        Inl e \<Rightarrow> Inl e
      | Inr flt \<Rightarrow> Inr (b\<lparr>db_filter := flt\<rparr>))"

definition MongoDeleteBuilder_single :: "MongoDeleteBuilder \<Rightarrow> MongoDeleteBuilder" where
  "MongoDeleteBuilder_single b = b\<lparr>db_singleDelete := True\<rparr>"

text \<open>The message of the guard: a delete must name a filter, so that not all rows are deleted by mistake.\<close>

definition delete_missing_filter :: string where
  "delete_missing_filter = [CHR 0xE5, CHR 0x88, CHR 0xA0, CHR 0xE9, CHR 0x99, CHR 0xA4, CHR 0xE6, CHR 0x93, CHR 0x8D, CHR 0xE4, CHR 0xBD, CHR 0x9C, CHR 0xE5, CHR 0xBF, CHR 0x85, CHR 0xE9, CHR 0xA1, CHR 0xBB, CHR 0xE6, CHR 0x8C, CHR 0x87, CHR 0xE5, CHR 0xAE, CHR 0x9A, CHR 0xE6, CHR 0x9F, CHR 0xA5, CHR 0xE8, CHR 0xAF, CHR 0xA2, CHR 0xE6, CHR 0x9D, CHR 0xA1, CHR 0xE4, CHR 0xBB, CHR 0xB6, CHR 0xEF, CHR 0xBC, CHR 0x8C, CHR 0xE9, CHR 0x98, CHR 0xB2, CHR 0xE6, CHR 0xAD, CHR 0xA2, CHR 0xE8, CHR 0xAF, CHR 0xAF, CHR 0xE5, CHR 0x88, CHR 0xA0, CHR 0xE9, CHR 0x99, CHR 0xA4, CHR 0xE6, CHR 0x89, CHR 0x80, CHR 0xE6, CHR 0x9C, CHR 0x89, CHR 0xE8, CHR 0xAE, CHR 0xB0, CHR 0xE5, CHR 0xBD, CHR 0x95, CHR 0xE3, CHR 0x80, CHR 0x82]"

definition MongoDeleteBuilder_toSQL :: "plugins \<Rightarrow> MongoDeleteBuilder \<Rightarrow> error + statement" where
  "MongoDeleteBuilder_toSQL pl b =
     (case Object_keys (db_filter b) of
        Inl e \<Rightarrow> Inl e
      | Inr keys \<Rightarrow>
          if keys = [] then
            Inl (handleError delete_missing_filter ''MongoDeleteBuilder'' SQLGenerationError)
          else
            (case parseMongoQuery pl (db_filter b) [] ''DELETE'' of
               Inl e \<Rightarrow> Inl e
             | Inr (whereClause, params) \<Rightarrow>
                 Inr (''DELETE FROM '' @ db_tableName b @ '' WHERE '' @ whereClause @
                      (if db_singleDelete b then '' LIMIT 1'' else []),
                      params)))"

subsection \<open>MongoUpdateBuilder\<close>

text \<open>
  \<^verbatim>\<open>dataObj\<close> is \<^verbatim>\<open>null\<close> or the object of update operators, \<^verbatim>\<open>dataArray\<close> is \<^verbatim>\<open>null\<close>
  or the array of rows.
\<close>

record MongoUpdateBuilder =
  ub_tableName :: string
  ub_idField :: string
  ub_dataObj :: jsval
  ub_dataArray :: "jsval list option"
  ub_filter :: jsval
  ub_singleUpdate :: bool

definition MongoUpdateBuilder_new :: "string \<Rightarrow> string \<Rightarrow> MongoUpdateBuilder" where
  "MongoUpdateBuilder_new tableName idField =
     \<lparr>ub_tableName = tableName, ub_idField = idField, ub_dataObj = JNull,
      ub_dataArray = None, ub_filter = JObj [], ub_singleUpdate = False\<rparr>"

text \<open>
  The messages of \<^verbatim>\<open>MongoUpdateBuilder\<close>, in the order of the source: a row lacks the
  identity field; the data is neither object nor array; the update has no filter;
  \<^verbatim>\<open>$set\<close> is empty; a field is set to \<^verbatim>\<open>undefined\<close>; \<^verbatim>\<open>$unset\<close> is no object; the
  operator is not supported; no field is updated; the array of rows is empty; the rows
  have no column; there is no data.
\<close>

definition msg_row_without_id :: "string \<Rightarrow> string" where
  "msg_row_without_id idField = [CHR 0xE6, CHR 0xAF, CHR 0x8F, CHR 0xE4, CHR 0xB8, CHR 0xAA, CHR 0xE6, CHR 0x9B, CHR 0xB4, CHR 0xE6, CHR 0x96, CHR 0xB0, CHR 0xE5, CHR 0xAF, CHR 0xB9, CHR 0xE8, CHR 0xB1, CHR 0xA1, CHR 0xE5, CHR 0xBF, CHR 0x85, CHR 0xE9, CHR 0xA1, CHR 0xBB, CHR 0xE5, CHR 0x8C, CHR 0x85, CHR 0xE5, CHR 0x90, CHR 0xAB] @ '' '' @ [CHR 0x27] @ idField @ [CHR 0x27] @ '' '' @ [CHR 0xE5, CHR 0xAD, CHR 0x97, CHR 0xE6, CHR 0xAE, CHR 0xB5]"

definition msg_bad_update_data :: string where
  "msg_bad_update_data = [CHR 0xE6, CHR 0x9B, CHR 0xB4, CHR 0xE6, CHR 0x96, CHR 0xB0, CHR 0xE6, CHR 0x95, CHR 0xB0, CHR 0xE6, CHR 0x8D, CHR 0xAE, CHR 0xE5, CHR 0xBF, CHR 0x85, CHR 0xE9, CHR 0xA1, CHR 0xBB, CHR 0xE4, CHR 0xB8, CHR 0xBA, CHR 0xE5, CHR 0xAF, CHR 0xB9, CHR 0xE8, CHR 0xB1, CHR 0xA1, CHR 0xE6, CHR 0x88, CHR 0x96, CHR 0xE6, CHR 0x95, CHR 0xB0, CHR 0xE7, CHR 0xBB, CHR 0x84, CHR 0xE3, CHR 0x80, CHR 0x82]"

definition update_missing_filter :: string where
  "update_missing_filter = [CHR 0xE6, CHR 0x9B, CHR 0xB4, CHR 0xE6, CHR 0x96, CHR 0xB0, CHR 0xE6, CHR 0x93, CHR 0x8D, CHR 0xE4, CHR 0xBD, CHR 0x9C, CHR 0xE5, CHR 0xBF, CHR 0x85, CHR 0xE9, CHR 0xA1, CHR 0xBB, CHR 0xE6, CHR 0x8C, CHR 0x87, CHR 0xE5, CHR 0xAE, CHR 0x9A, CHR 0xE6, CHR 0x9F, CHR 0xA5, CHR 0xE8, CHR 0xAF, CHR 0xA2, CHR 0xE6, CHR 0x9D, CHR 0xA1, CHR 0xE4, CHR 0xBB, CHR 0xB6, CHR 0xEF, CHR 0xBC, CHR 0x8C, CHR 0xE9, CHR 0x98, CHR 0xB2, CHR 0xE6, CHR 0xAD, CHR 0xA2, CHR 0xE8, CHR 0xAF, CHR 0xAF, CHR 0xE6, CHR 0x9B, CHR 0xB4, CHR 0xE6, CHR 0x96, CHR 0xB0, CHR 0xE6, CHR 0x89, CHR 0x80, CHR 0xE6, CHR 0x9C, CHR 0x89, CHR 0xE8, CHR 0xAE, CHR 0xB0, CHR 0xE5, CHR 0xBD, CHR 0x95, CHR 0xE3, CHR 0x80, CHR 0x82]"

definition msg_empty_set :: string where
  "msg_empty_set = [CHR 0xE6, CHR 0x97, CHR 0xA0, CHR 0xE6, CHR 0x95, CHR 0x88, CHR 0xE7, CHR 0x9A, CHR 0x84] @ '' $set '' @ [CHR 0xE6, CHR 0x9B, CHR 0xB4, CHR 0xE6, CHR 0x96, CHR 0xB0, CHR 0xE6, CHR 0x93, CHR 0x8D, CHR 0xE4, CHR 0xBD, CHR 0x9C] @ '': '' @ [CHR 0xE4, CHR 0xB8, CHR 0x8D, CHR 0xE8, CHR 0x83, CHR 0xBD, CHR 0xE4, CHR 0xB8, CHR 0xBA, CHR 0xE7, CHR 0xA9, CHR 0xBA]"

definition msg_undefined_field :: "string \<Rightarrow> string" where
  "msg_undefined_field field = [CHR 0xE5, CHR 0xAD, CHR 0x97, CHR 0xE6, CHR 0xAE, CHR 0xB5] @ '' '' @ field @ '' '' @ [CHR 0xE4, CHR 0xB8, CHR 0x8D, CHR 0xE8, CHR 0x83, CHR 0xBD, CHR 0xE8, CHR 0xAE, CHR 0xBE, CHR 0xE7, CHR 0xBD, CHR 0xAE, CHR 0xE4, CHR 0xB8, CHR 0xBA] @ '' undefined''"

definition msg_bad_unset :: string where
  "msg_bad_unset = [CHR 0xE6, CHR 0x97, CHR 0xA0, CHR 0xE6, CHR 0x95, CHR 0x88, CHR 0xE7, CHR 0x9A, CHR 0x84] @ '' $unset '' @ [CHR 0xE8, CHR 0xAF, CHR 0xAD, CHR 0xE6, CHR 0xB3, CHR 0x95, CHR 0xEF, CHR 0xBC, CHR 0x8C, CHR 0xE5, CHR 0xBA, CHR 0x94, CHR 0xE4, CHR 0xB8, CHR 0xBA] @ '' { field1: '' @ [CHR 0x27, CHR 0x27] @ '', field2: '' @ [CHR 0x27, CHR 0x27] @ '' }''"

definition msg_unsupported_update_operator :: "string \<Rightarrow> string" where
  "msg_unsupported_update_operator op = [CHR 0xE4, CHR 0xB8, CHR 0x8D, CHR 0xE6, CHR 0x94, CHR 0xAF, CHR 0xE6, CHR 0x8C, CHR 0x81, CHR 0xE7, CHR 0x9A, CHR 0x84, CHR 0xE6, CHR 0x9B, CHR 0xB4, CHR 0xE6, CHR 0x96, CHR 0xB0, CHR 0xE6, CHR 0x93, CHR 0x8D, CHR 0xE4, CHR 0xBD, CHR 0x9C, CHR 0xE7, CHR 0xAC, CHR 0xA6] @ '': '' @ op"

definition msg_no_update_field :: string where
  "msg_no_update_field = [CHR 0xE6, CHR 0x9C, CHR 0xAA, CHR 0xE6, CHR 0x8C, CHR 0x87, CHR 0xE5, CHR 0xAE, CHR 0x9A, CHR 0xE6, CHR 0x9B, CHR 0xB4, CHR 0xE6, CHR 0x96, CHR 0xB0, CHR 0xE5, CHR 0xAD, CHR 0x97, CHR 0xE6, CHR 0xAE, CHR 0xB5, CHR 0xE3, CHR 0x80, CHR 0x82]"

definition msg_no_update_object :: string where
  "msg_no_update_object = [CHR 0xE6, CHR 0x9C, CHR 0xAA, CHR 0xE6, CHR 0x8C, CHR 0x87, CHR 0xE5, CHR 0xAE, CHR 0x9A, CHR 0xE6, CHR 0x9B, CHR 0xB4, CHR 0xE6, CHR 0x96, CHR 0xB0, CHR 0xE5, CHR 0xAF, CHR 0xB9, CHR 0xE8, CHR 0xB1, CHR 0xA1, CHR 0xE3, CHR 0x80, CHR 0x82]"

definition msg_no_bulk_column :: string where
  "msg_no_bulk_column = [CHR 0xE6, CHR 0x89, CHR 0xB9, CHR 0xE9, CHR 0x87, CHR 0x8F, CHR 0xE6, CHR 0x9B, CHR 0xB4, CHR 0xE6, CHR 0x96, CHR 0xB0, CHR 0xE6, CHR 0x97, CHR 0xB6, CHR 0xEF, CHR 0xBC, CHR 0x8C, CHR 0xE6, CHR 0x9C, CHR 0xAA, CHR 0xE6, CHR 0xA3, CHR 0x80, CHR 0xE6, CHR 0xB5, CHR 0x8B, CHR 0xE5, CHR 0x88, CHR 0xB0, CHR 0xE6, CHR 0x9C, CHR 0x89, CHR 0xE6, CHR 0x95, CHR 0x88, CHR 0xE5, CHR 0xAD, CHR 0x97, CHR 0xE6, CHR 0xAE, CHR 0xB5, CHR 0xE3, CHR 0x80, CHR 0x82]"

definition msg_no_update_data :: string where
  "msg_no_update_data = [CHR 0xE6, CHR 0x9C, CHR 0xAA, CHR 0xE6, CHR 0x8C, CHR 0x87, CHR 0xE5, CHR 0xAE, CHR 0x9A, CHR 0xE6, CHR 0x9B, CHR 0xB4, CHR 0xE6, CHR 0x96, CHR 0xB0, CHR 0xE6, CHR 0x95, CHR 0xB0, CHR 0xE6, CHR 0x8D, CHR 0xAE, CHR 0xE3, CHR 0x80, CHR 0x82]"

text \<open>The check of the rows in \<^verbatim>\<open>update\<close>: it stops at the first row that fails.\<close>

fun check_rows :: "string \<Rightarrow> jsval list \<Rightarrow> error + unit" where
  "check_rows idField [] = Inr ()"
| "check_rows idField (obj # rest) =
     (case hasOwnProperty obj idField of
        Inl e \<Rightarrow> Inl e
      | Inr has \<Rightarrow>
          if \<not> has
          then Inl (handleError (msg_row_without_id idField) ''MongoUpdateBuilder'' SQLGenerationError)
          else check_rows idField rest)"

definition MongoUpdateBuilder_update :: "MongoUpdateBuilder \<Rightarrow> jsval \<Rightarrow> error + MongoUpdateBuilder" where
  "MongoUpdateBuilder_update b updateData =
     (case updateData of
        JArr rows \<Rightarrow>
          (case check_rows (ub_idField b) rows of
             Inl e \<Rightarrow> Inl e
           | Inr u \<Rightarrow> Inr (b\<lparr>ub_dataArray := Some rows, ub_dataObj := JNull\<rparr>))
      | JObj kvs \<Rightarrow>
          Inr (b\<lparr>ub_dataObj :=
                   (if list_all (\<lambda>key. \<not> startsWith_dollar key) (map fst kvs)
                    then JObj [(''$set'', updateData)] else updateData),
                 ub_dataArray := None\<rparr>)
      | JSub sq \<Rightarrow>
          Inr (b\<lparr>ub_dataObj :=
                   (if list_all (\<lambda>key. \<not> startsWith_dollar key) (map fst (subquery_props sq))
                    then JObj [(''$set'', updateData)] else updateData),
                 ub_dataArray := None\<rparr>)
      | _ \<Rightarrow> Inl (handleError msg_bad_update_data ''MongoUpdateBuilder'' SQLGenerationError))"

definition MongoUpdateBuilder_query :: "MongoUpdateBuilder \<Rightarrow> jsval \<Rightarrow> error + MongoUpdateBuilder" where
  "MongoUpdateBuilder_query b queryObj =
     (case query_filter (ub_filter b) queryObj of
        Inl e \<Rightarrow> Inl e
      | Inr flt \<Rightarrow> Inr (b\<lparr>ub_filter := flt\<rparr>))"

definition MongoUpdateBuilder_single :: "MongoUpdateBuilder \<Rightarrow> MongoUpdateBuilder" where
  "MongoUpdateBuilder_single b = b\<lparr>ub_singleUpdate := True\<rparr>"

text \<open>
  The operator form of \<^verbatim>\<open>toSQL\<close>. \<open>set_fields\<close> is the loop over the fields of
  \<^verbatim>\<open>$set\<close>; \<open>update_operator\<close> is the body of the \<^verbatim>\<open>switch\<close>; \<open>update_operators\<close>
  is the loop over the operators.
\<close>

fun set_fields :: "(string \<times> jsval) list \<Rightarrow> string list \<Rightarrow> param list \<Rightarrow> error + (string list \<times> param list)" where
  "set_fields [] setClauses params = Inr (setClauses, params)"
| "set_fields ((field, v) # rest) setClauses params =
     (if v = JUndef
      then Inl (handleError (msg_undefined_field field) ''MongoUpdateBuilder.toSQL'' SQLGenerationError)
      else set_fields rest (setClauses @ [field @ '' = ?'']) (params @ [PVal v]))"

definition update_operator ::
  "string \<Rightarrow> jsval \<Rightarrow> string list \<Rightarrow> param list \<Rightarrow> error + (string list \<times> param list)" where
  "update_operator op v setClauses params =
     (if op = ''$set'' then
        (if \<not> truthy v \<or> for_in v = []
         then Inl (handleError msg_empty_set ''MongoUpdateBuilder.toSQL'' SQLGenerationError)
         else set_fields (for_in v) setClauses params)
      else if op = ''$inc'' then
        Inr (setClauses @ map (\<lambda>(field, x). field @ '' = '' @ field @ '' + ?'') (for_in v),
             params @ map (\<lambda>(field, x). PVal x) (for_in v))
      else if op = ''$unset'' then
        (case v of
           JUndef \<Rightarrow> Inl (handleError msg_bad_unset ''MongoUpdateBuilder'' SQLGenerationError)
         | JBool x \<Rightarrow> Inl (handleError msg_bad_unset ''MongoUpdateBuilder'' SQLGenerationError)
         | JNum x \<Rightarrow> Inl (handleError msg_bad_unset ''MongoUpdateBuilder'' SQLGenerationError)
         | JStr x \<Rightarrow> Inl (handleError msg_bad_unset ''MongoUpdateBuilder'' SQLGenerationError)
         | _ \<Rightarrow> Inr (setClauses @ map (\<lambda>(field, x). field @ '' = NULL'') (for_in v), params))
      else if op = ''$mul'' then
        Inr (setClauses @ map (\<lambda>(field, x). field @ '' = '' @ field @ '' * ?'') (for_in v),
             params @ map (\<lambda>(field, x). PVal x) (for_in v))
      else Inl (handleError (msg_unsupported_update_operator op) ''MongoUpdateBuilder'' SQLGenerationError))"

fun update_operators :: "(string \<times> jsval) list \<Rightarrow> string list \<Rightarrow> param list \<Rightarrow> error + (string list \<times> param list)" where
  "update_operators [] setClauses params = Inr (setClauses, params)"
| "update_operators ((op, v) # rest) setClauses params =
     (case update_operator op v setClauses params of
        Inl e \<Rightarrow> Inl e
      | Inr (setClauses', params') \<Rightarrow> update_operators rest setClauses' params')"

text \<open>
  The bulk form of \<^verbatim>\<open>toSQL\<close>. \<open>add_columns\<close> is the loop that fills the set
  \<^verbatim>\<open>updateColumns\<close>, which keeps the order of first insertion; \<open>case_arms\<close> is the
  \<^verbatim>\<open>map\<close> that gives \<^verbatim>\<open>WHEN ? THEN ?\<close> or the empty string for each row;
  \<open>case_params\<close> is the inner loop that pushes the identity and the value of each row
  that has the column.
\<close>

fun add_columns :: "string \<Rightarrow> string list \<Rightarrow> string list \<Rightarrow> string list" where
  "add_columns idField [] updateColumns = updateColumns"
| "add_columns idField (key # keys) updateColumns =
     add_columns idField keys
       (if key \<noteq> idField \<and> key \<notin> set updateColumns then updateColumns @ [key]
        else updateColumns)"

fun collect_columns :: "string \<Rightarrow> jsval list \<Rightarrow> string list \<Rightarrow> string list" where
  "collect_columns idField [] updateColumns = updateColumns"
| "collect_columns idField (obj # rest) updateColumns =
     collect_columns idField rest (add_columns idField (map fst (for_in obj)) updateColumns)"

fun case_arms :: "string \<Rightarrow> jsval list \<Rightarrow> error + string list" where
  "case_arms col [] = Inr []"
| "case_arms col (obj # rest) =
     (case hasOwnProperty obj col of
        Inl e \<Rightarrow> Inl e
      | Inr has \<Rightarrow>
          (case case_arms col rest of
             Inl e \<Rightarrow> Inl e
           | Inr arms \<Rightarrow> Inr ((if has then ''WHEN ? THEN ?'' else []) # arms)))"

fun set_clauses :: "string \<Rightarrow> string list \<Rightarrow> jsval list \<Rightarrow> error + string list" where
  "set_clauses idField [] dataArray = Inr []"
| "set_clauses idField (col # cols) dataArray =
     (case case_arms col dataArray of
        Inl e \<Rightarrow> Inl e
      | Inr arms \<Rightarrow>
          (case set_clauses idField cols dataArray of
             Inl e \<Rightarrow> Inl e
           | Inr clauses \<Rightarrow>
               Inr ((col @ '' = CASE '' @ idField @ '' '' @
                     join_str '' '' (filter (\<lambda>x. x \<noteq> []) arms) @
                     '' ELSE '' @ col @ '' END'') # clauses)))"

fun case_params :: "string \<Rightarrow> string \<Rightarrow> jsval list \<Rightarrow> param list \<Rightarrow> error + param list" where
  "case_params idField col [] caseParams = Inr caseParams"
| "case_params idField col (obj # rest) caseParams =
     (case hasOwnProperty obj col of
        Inl e \<Rightarrow> Inl e
      | Inr has \<Rightarrow>
          case_params idField col rest
            (if has then caseParams @ [PVal (own_get obj idField), PVal (own_get obj col)]
             else caseParams))"

fun all_case_params :: "string \<Rightarrow> string list \<Rightarrow> jsval list \<Rightarrow> param list \<Rightarrow> error + param list" where
  "all_case_params idField [] dataArray caseParams = Inr caseParams"
| "all_case_params idField (col # cols) dataArray caseParams =
     (case case_params idField col dataArray caseParams of
        Inl e \<Rightarrow> Inl e
      | Inr caseParams' \<Rightarrow> all_case_params idField cols dataArray caseParams')"

definition MongoUpdateBuilder_toSQL :: "plugins \<Rightarrow> MongoUpdateBuilder \<Rightarrow> error + statement" where
  "MongoUpdateBuilder_toSQL pl b =
     (case Object_keys (ub_filter b) of
        Inl e \<Rightarrow> Inl e
      | Inr keys \<Rightarrow>
          if keys = [] then
            Inl (handleError update_missing_filter ''MongoUpdateBuilder'' SQLGenerationError)
          else if truthy (ub_dataObj b) then
            (case update_operators (for_in (ub_dataObj b)) [] [] of
               Inl e \<Rightarrow> Inl e
             | Inr (setClauses, params) \<Rightarrow>
                 if setClauses = [] then
                   Inl (handleError msg_no_update_field ''MongoUpdateBuilder'' SQLGenerationError)
                 else
                   (case parseMongoQuery pl (ub_filter b) params ''UPDATE'' of
                      Inl e \<Rightarrow> Inl e
                    | Inr (whereClause, params') \<Rightarrow>
                        Inr (''UPDATE '' @ ub_tableName b @ '' SET '' @ join_str '', '' setClauses @
                             '' WHERE '' @ whereClause @
                             (if ub_singleUpdate b then '' LIMIT 1'' else []),
                             params')))
          else
            (case ub_dataArray b of
               None \<Rightarrow> Inl (handleError msg_no_update_data ''MongoUpdateBuilder'' SQLGenerationError)
             | Some dataArray \<Rightarrow>
                 if dataArray = [] then
                   Inl (handleError msg_no_update_object ''MongoUpdateBuilder'' SQLGenerationError)
                 else
                   (let updateColumns = collect_columns (ub_idField b) dataArray [] in
                    if updateColumns = [] then
                      Inl (handleError msg_no_bulk_column ''MongoUpdateBuilder'' SQLGenerationError)
                    else
                      (case set_clauses (ub_idField b) updateColumns dataArray of
                         Inl e \<Rightarrow> Inl e
                       | Inr setClauses \<Rightarrow>
                           (case all_case_params (ub_idField b) updateColumns dataArray [] of
                              Inl e \<Rightarrow> Inl e
                            | Inr caseParams \<Rightarrow>
                                (let ids = map (\<lambda>obj. PVal (own_get obj (ub_idField b))) dataArray;
                                     placeholders = join_str '', '' (map (\<lambda>x. ''?'') ids);
                                     bulkWhereClause = ub_idField b @ '' IN ('' @ placeholders @ '')''
                                 in (case parseMongoQuery pl (ub_filter b) [] ''BULK_UPDATE'' of
                                       Inl e \<Rightarrow> Inl e
                                     | Inr (extraCondition, extraParams) \<Rightarrow>
                                         Inr (''UPDATE '' @ ub_tableName b @ '' SET '' @
                                              join_str '', '' setClauses @ '' WHERE '' @
                                              bulkWhereClause @
                                              (if extraCondition \<noteq> ''1=1''
                                               then '' AND ('' @ extraCondition @ '')'' else []) @
                                              (if ub_singleUpdate b then '' LIMIT 1'' else []),
                                              caseParams @ ids @ extraParams))))))))"

subsection \<open>MongoAggregationBuilder\<close>

text \<open>
  Each method of the builder pushes an object with one key onto the pipeline; the
  model keeps the key as the constructor and the value as its argument. \<^verbatim>\<open>toSQL\<close>
  finds the kind of a stage by testing \<^verbatim>\<open>stage.$match\<close>, \<^verbatim>\<open>stage.$group\<close>, ... for
  truthiness in turn, so a stage whose value is falsy is skipped. The object pushed
  by \<^verbatim>\<open>lookup\<close> is always truthy.
\<close>

datatype stage =
    Match jsval | Group jsval | Project jsval | Sort jsval | Limit jsval | Skip jsval
  | Lookup jsval jsval jsval jsval
  | Unwind jsval

record MongoAggregationBuilder =
  ab_tableName :: string
  ab_pipeline :: "stage list"
  ab_joinClause :: string

definition MongoAggregationBuilder_new :: "string \<Rightarrow> MongoAggregationBuilder" where
  "MongoAggregationBuilder_new tableName =
     \<lparr>ab_tableName = tableName, ab_pipeline = [], ab_joinClause = []\<rparr>"

definition push_stage :: "MongoAggregationBuilder \<Rightarrow> stage \<Rightarrow> MongoAggregationBuilder" where
  "push_stage b st = b\<lparr>ab_pipeline := ab_pipeline b @ [st]\<rparr>"

definition MongoAggregationBuilder_match :: "MongoAggregationBuilder \<Rightarrow> jsval \<Rightarrow> MongoAggregationBuilder" where
  "MongoAggregationBuilder_match b query = push_stage b (Match query)"

definition MongoAggregationBuilder_group :: "MongoAggregationBuilder \<Rightarrow> jsval \<Rightarrow> MongoAggregationBuilder" where
  "MongoAggregationBuilder_group b groupObj = push_stage b (Group groupObj)"

definition MongoAggregationBuilder_project :: "MongoAggregationBuilder \<Rightarrow> jsval \<Rightarrow> MongoAggregationBuilder" where
  "MongoAggregationBuilder_project b projection = push_stage b (Project projection)"

definition MongoAggregationBuilder_sort :: "MongoAggregationBuilder \<Rightarrow> jsval \<Rightarrow> MongoAggregationBuilder" where
  "MongoAggregationBuilder_sort b sortObj = push_stage b (Sort sortObj)"

definition MongoAggregationBuilder_limit :: "MongoAggregationBuilder \<Rightarrow> jsval \<Rightarrow> MongoAggregationBuilder" where
  "MongoAggregationBuilder_limit b n = push_stage b (Limit n)"

definition MongoAggregationBuilder_skip :: "MongoAggregationBuilder \<Rightarrow> jsval \<Rightarrow> MongoAggregationBuilder" where
  "MongoAggregationBuilder_skip b n = push_stage b (Skip n)"

definition MongoAggregationBuilder_lookup ::
  "MongoAggregationBuilder \<Rightarrow> jsval \<Rightarrow> jsval \<Rightarrow> jsval \<Rightarrow> jsval \<Rightarrow> MongoAggregationBuilder" where
  "MongoAggregationBuilder_lookup b from localField foreignField as =
     push_stage b (Lookup from localField foreignField as)"

definition MongoAggregationBuilder_unwind :: "MongoAggregationBuilder \<Rightarrow> jsval \<Rightarrow> MongoAggregationBuilder" where
  "MongoAggregationBuilder_unwind b field = push_stage b (Unwind field)"

text \<open>
  \<^verbatim>\<open>parseGroupStage\<close>. \<open>strip_dollar\<close> is \<^verbatim>\<open>val.substring(1)\<close> for a string that starts
  with \<^verbatim>\<open>$\<close>; \<open>group_id\<close> gives what \<^verbatim>\<open>_id\<close> adds to the SELECT and GROUP BY parts;
  \<open>group_aggregates\<close> is the loop over the other keys. The message says that the
  aggregate operator is not supported.
\<close>

definition strip_dollar :: "jsval \<Rightarrow> jsval" where
  "strip_dollar v =
     (case v of JStr s \<Rightarrow> if startsWith_dollar s then JStr (drop 1 s) else v | _ \<Rightarrow> v)"

definition group_id :: "jsval \<Rightarrow> string list \<times> string list" where
  "group_id gid =
     (if truthy gid then
        (case gid of
           JObj kvs \<Rightarrow>
             ([js_join '', '' (map (\<lambda>(key, v). strip_dollar v) kvs)],
              [js_join '', '' (map (\<lambda>(key, v). strip_dollar v) kvs)])
         | JSub sq \<Rightarrow>
             ([js_join '', '' (map (\<lambda>(key, v). strip_dollar v) (subquery_props sq))],
              [js_join '', '' (map (\<lambda>(key, v). strip_dollar v) (subquery_props sq))])
         | _ \<Rightarrow>
             if (case gid of JStr s \<Rightarrow> startsWith_dollar s | _ \<Rightarrow> False)
             then ([js_to_string (strip_dollar gid) @ '' AS _id''], [js_to_string (strip_dollar gid)])
             else ([[CHR 0x27] @ js_to_string gid @ [CHR 0x27] @ '' AS _id''], [''_id'']))
      else ([], []))"

definition msg_unsupported_aggregate :: "string \<Rightarrow> string" where
  "msg_unsupported_aggregate operator = [CHR 0xE4, CHR 0xB8, CHR 0x8D, CHR 0xE6, CHR 0x94, CHR 0xAF, CHR 0xE6, CHR 0x8C, CHR 0x81, CHR 0xE7, CHR 0x9A, CHR 0x84, CHR 0xE8, CHR 0x81, CHR 0x9A, CHR 0xE5, CHR 0x90, CHR 0x88, CHR 0xE6, CHR 0x93, CHR 0x8D, CHR 0xE4, CHR 0xBD, CHR 0x9C, CHR 0xE7, CHR 0xAC, CHR 0xA6] @ '': '' @ operator"

fun group_aggregates :: "(string \<times> jsval) list \<Rightarrow> string list \<Rightarrow> error + string list" where
  "group_aggregates [] selectParts = Inr selectParts"
| "group_aggregates ((key, operatorObj) # rest) selectParts =
     (if key = ''_id'' then group_aggregates rest selectParts
      else
        (case Object_keys operatorObj of
           Inl e \<Rightarrow> Inl e
         | Inr keys \<Rightarrow>
             (let operator = (case keys of [] \<Rightarrow> JUndef | k # ks \<Rightarrow> JStr k);
                  operand = (case keys of [] \<Rightarrow> JUndef | k # ks \<Rightarrow> own_get operatorObj k);
                  operandStr = (if (case operand of JStr s \<Rightarrow> startsWith_dollar s | _ \<Rightarrow> False)
                                then js_to_string (strip_dollar operand)
                                else if operand \<noteq> JUndef then js_to_string operand
                                else ''NULL'')
              in
              (case (if operator = JStr ''$sum'' then Some ''SUM''
                     else if operator = JStr ''$avg'' then Some ''AVG''
                     else if operator = JStr ''$min'' then Some ''MIN''
                     else if operator = JStr ''$max'' then Some ''MAX''
                     else None) of
                 None \<Rightarrow>
                   Inl (handleError (msg_unsupported_aggregate (js_to_string operator))
                          ''parseGroupStage'' SQLGenerationError)
               | Some sqlFunc \<Rightarrow>
                   group_aggregates rest
                     (selectParts @ [sqlFunc @ ''('' @ operandStr @ '') AS '' @ key])))))"

definition parseGroupStage :: "jsval \<Rightarrow> error + (string \<times> string \<times> string)" where
  "parseGroupStage groupObj =
     (let (selectParts, groupByParts) = group_id (prop_or_undef groupObj ''_id'') in
      (case group_aggregates (for_in groupObj) selectParts of
         Inl e \<Rightarrow> Inl e
       | Inr selectParts' \<Rightarrow>
           Inr (join_str '', '' selectParts', join_str '', '' groupByParts, join_str '' AND '' [])))"

text \<open>The local variables of \<^verbatim>\<open>toSQL\<close>, with the field \<^verbatim>\<open>joinClause\<close> that it appends to.\<close>

record agg_state =
  ag_params :: "param list"
  ag_whereConditions :: "string list"
  ag_groupClause :: string
  ag_havingClause :: string
  ag_selectClause :: string
  ag_orderClause :: string
  ag_limitClause :: jsval
  ag_offsetClause :: jsval
  ag_comments :: "string list"
  ag_joinClause :: string

definition agg_stage :: "plugins \<Rightarrow> string \<Rightarrow> stage \<Rightarrow> agg_state \<Rightarrow> error + agg_state" where
  "agg_stage pl tableName st a =
     (case st of
        Match query \<Rightarrow>
          if truthy query then
            (case parseMongoQuery pl query (ag_params a) ''$match'' of
               Inl e \<Rightarrow> Inl e
             | Inr (conditionStr, params') \<Rightarrow>
                 Inr (a\<lparr>ag_params := params',
                        ag_whereConditions :=
                          (if conditionStr \<noteq> [] then ag_whereConditions a @ [conditionStr]
                           else ag_whereConditions a)\<rparr>))
          else Inr a
      | Group groupObj \<Rightarrow>
          if truthy groupObj then
            (case parseGroupStage groupObj of
               Inl e \<Rightarrow> Inl e
             | Inr (selectClause, groupByClause, havingClause) \<Rightarrow>
                 Inr (a\<lparr>ag_selectClause := selectClause, ag_groupClause := groupByClause,
                        ag_havingClause := havingClause\<rparr>))
          else Inr a
      | Project projection \<Rightarrow>
          (case projection of
             JArr columns \<Rightarrow>
               Inr (a\<lparr>ag_selectClause :=
                        (if ag_selectClause a = ''*'' then js_join '', '' columns
                         else js_join '', '' columns @ '', '' @ ag_selectClause a)\<rparr>)
           | _ \<Rightarrow> Inr a)
      | Sort sortObj \<Rightarrow>
          if truthy sortObj then
            Inr (a\<lparr>ag_orderClause :=
                     join_str '', ''
                       (map (\<lambda>(key, v). key @ '' '' @ (if v = JNum (- 1) then ''DESC'' else ''ASC''))
                          (for_in sortObj))\<rparr>)
          else Inr a
      | Limit n \<Rightarrow> if truthy n then Inr (a\<lparr>ag_limitClause := n\<rparr>) else Inr a
      | Skip n \<Rightarrow> if truthy n then Inr (a\<lparr>ag_offsetClause := n\<rparr>) else Inr a
      | Lookup from localField foreignField as \<Rightarrow>
          Inr (a\<lparr>ag_joinClause :=
                   ag_joinClause a @ '' LEFT JOIN '' @ js_to_string from @ '' AS '' @
                   js_to_string as @ '' ON '' @ tableName @ ''.'' @ js_to_string localField @
                   '' = '' @ js_to_string as @ ''.'' @ js_to_string foreignField\<rparr>)
      | Unwind field \<Rightarrow>
          if truthy field
          then Inr (a\<lparr>ag_comments := ag_comments a @ [''/* UNWIND('' @ js_to_string field @ '') */'']\<rparr>)
          else Inr a)"

fun agg_stages :: "plugins \<Rightarrow> string \<Rightarrow> stage list \<Rightarrow> agg_state \<Rightarrow> error + agg_state" where
  "agg_stages pl tableName [] a = Inr a"
| "agg_stages pl tableName (st # rest) a =
     (case agg_stage pl tableName st a of
        Inl e \<Rightarrow> Inl e
      | Inr a' \<Rightarrow> agg_stages pl tableName rest a')"

definition agg_assemble :: "string \<Rightarrow> agg_state \<Rightarrow> string" where
  "agg_assemble tableName a =
     ''SELECT '' @ ag_selectClause a @ '' FROM '' @ tableName @
     ag_joinClause a @
     (if ag_comments a \<noteq> [] then '' '' @ join_str '' '' (ag_comments a) else []) @
     (if ag_whereConditions a \<noteq> [] then '' WHERE '' @ join_str '' AND '' (ag_whereConditions a) else []) @
     (if ag_groupClause a \<noteq> [] then '' GROUP BY '' @ ag_groupClause a else []) @
     (if ag_havingClause a \<noteq> [] then '' HAVING '' @ ag_havingClause a else []) @
     (if ag_orderClause a \<noteq> [] then '' ORDER BY '' @ ag_orderClause a else []) @
     (if truthy (ag_limitClause a) then
        '' LIMIT '' @ js_to_string (ag_limitClause a) @
        (if truthy (ag_offsetClause a) then '' OFFSET '' @ js_to_string (ag_offsetClause a) else [])
      else if truthy (ag_offsetClause a) then
        '' LIMIT 18446744073709551615 OFFSET '' @ js_to_string (ag_offsetClause a)
      else [])"

text \<open>
  \<^verbatim>\<open>toSQL\<close> returns the statement; the builder is returned with it, since its field
  \<^verbatim>\<open>joinClause\<close> has grown by the JOIN of every \<^verbatim>\<open>$lookup\<close> stage.
\<close>

definition MongoAggregationBuilder_toSQL ::
  "plugins \<Rightarrow> MongoAggregationBuilder \<Rightarrow> error + (statement \<times> MongoAggregationBuilder)" where
  "MongoAggregationBuilder_toSQL pl b =
     (case agg_stages pl (ab_tableName b) (ab_pipeline b)
             \<lparr>ag_params = [], ag_whereConditions = [], ag_groupClause = [],
              ag_havingClause = [], ag_selectClause = ''*'', ag_orderClause = [],
              ag_limitClause = JStr [], ag_offsetClause = JStr [], ag_comments = [],
              ag_joinClause = ab_joinClause b\<rparr> of
        Inl e \<Rightarrow> Inl e
      | Inr a \<Rightarrow>
          Inr ((agg_assemble (ab_tableName b) a, ag_params a),
               b\<lparr>ab_joinClause := ag_joinClause a\<rparr>))"

section \<open>Notions used in the statements\<close>

text \<open>The values of the last truthy limit and skip stages of a pipeline.\<close>

fun final_limit :: "stage list \<Rightarrow> jsval \<Rightarrow> jsval" where
  "final_limit [] l = l"
| "final_limit (Limit n # rest) l = final_limit rest (if truthy n then n else l)"
| "final_limit (st # rest) l = final_limit rest l"

fun final_skip :: "stage list \<Rightarrow> jsval \<Rightarrow> jsval" where
  "final_skip [] s = s"
| "final_skip (Skip n # rest) s = final_skip rest (if truthy n then n else s)"
| "final_skip (st # rest) s = final_skip rest s"

text \<open>The distinct elements of a list, in the order of their first occurrence.\<close>

function first_seen :: "'a list \<Rightarrow> 'a list" where
  "first_seen [] = []"
| "first_seen (x # xs) = x # first_seen (filter (\<lambda>y. y \<noteq> x) xs)"
  by pat_completeness auto
termination
  by (relation "measure length") (auto simp: less_Suc_eq_le)

text \<open>
  The bulk form in the words of the specification, for rows that are plain objects:
  the columns, the assignment of a column, and the pairs of identity and value of a
  column.
\<close>

definition has_column :: "(string \<times> jsval) list \<Rightarrow> string \<Rightarrow> bool" where
  "has_column row col = (col \<in> set (map fst row))"

definition bulk_columns :: "string \<Rightarrow> (string \<times> jsval) list list \<Rightarrow> string list" where
  "bulk_columns idField rows =
     first_seen (filter (\<lambda>key. key \<noteq> idField) (concat (map (map fst) rows)))"

definition bulk_set_clause :: "string \<Rightarrow> (string \<times> jsval) list list \<Rightarrow> string \<Rightarrow> string" where
  "bulk_set_clause idField rows col =
     col @ '' = CASE '' @ idField @ '' '' @
     join_str '' '' (replicate (length (filter (\<lambda>row. has_column row col) rows)) ''WHEN ? THEN ?'') @
     '' ELSE '' @ col @ '' END''"

definition bulk_case_params :: "string \<Rightarrow> (string \<times> jsval) list list \<Rightarrow> string \<Rightarrow> param list" where
  "bulk_case_params idField rows col =
     concat (map (\<lambda>row. [PVal (own_get (JObj row) idField), PVal (own_get (JObj row) col)])
               (filter (\<lambda>row. has_column row col) rows))"

subsection \<open>Placeholders and parameters\<close>

text \<open>
  The conditions pushed and the parameters pushed are aligned when the conditions
  hold as many placeholders as there are parameters.
\<close>

definition aligned :: "string list \<Rightarrow> param list \<Rightarrow> bool" where
  "aligned conds ps = (sum_list (map placeholders conds) = length ps)"

text \<open>
  An instance of \<^verbatim>\<open>SubQuery\<close> is aligned when the text that \<^verbatim>\<open>toSQL()\<close> returns has as
  many placeholders as \<^verbatim>\<open>getParams()\<close> returns parameters (with no plugin registered).
\<close>

definition aligned_subquery :: "subquery \<Rightarrow> bool" where
  "aligned_subquery sq =
     (case (fst (SubQuery_toSQL [] sq), fst (SubQuery_getParams [] sq)) of
        (Inr s, Inr ps) \<Rightarrow> placeholders s = length ps
      | _ \<Rightarrow> True)"

text \<open>
  The filters for which the placeholders are counted: every key of a filter object,
  at every level of \<^verbatim>\<open>$and\<close>, \<^verbatim>\<open>$or\<close>, \<^verbatim>\<open>$nor\<close> and the other keys with the sigil, is
  free of \<^verbatim>\<open>?\<close>, and
  every subquery that the translator embeds (as the value of a field, as the operand
  of an operator, as an element of the array of an operator) is aligned.
\<close>

definition sound_element :: "jsval \<Rightarrow> bool" where
  "sound_element v = (case v of JSub sq \<Rightarrow> aligned_subquery sq | _ \<Rightarrow> True)"

definition sound_operand :: "jsval \<Rightarrow> bool" where
  "sound_operand v =
     (case v of JSub sq \<Rightarrow> aligned_subquery sq | JArr vs \<Rightarrow> list_all sound_element vs | _ \<Rightarrow> True)"

definition sound_operators :: "(string \<times> jsval) list \<Rightarrow> bool" where
  "sound_operators ops = list_all (\<lambda>(op, v). sound_operand v) ops"

definition sound_field :: "jsval \<Rightarrow> bool" where
  "sound_field v =
     (case v of JSub sq \<Rightarrow> aligned_subquery sq | JObj ops \<Rightarrow> sound_operators ops | _ \<Rightarrow> True)"

fun sound_filter :: "jsval \<Rightarrow> bool"
and sound_entries :: "(string \<times> jsval) list \<Rightarrow> bool"
and sound_entry :: "string \<Rightarrow> jsval \<Rightarrow> bool"
and sound_filters :: "jsval list \<Rightarrow> bool" where
  "sound_filter (JObj kvs) = sound_entries kvs"
| "sound_filter (JArr xs) = list_all sound_field xs"
| "sound_filter v = True"
| "sound_entries [] = True"
| "sound_entries ((key, v) # rest) = (sound_entry key v \<and> sound_entries rest)"
| "sound_entry key (JArr xs) =
     (placeholders key = 0 \<and> (if startsWith_dollar key then sound_filters xs else True))"
| "sound_entry key v =
     (placeholders key = 0 \<and> (if startsWith_dollar key then True else sound_field v))"
| "sound_filters [] = True"
| "sound_filters (x # xs) = (sound_filter x \<and> sound_filters xs)"

text \<open>
  What a step of the translator does to the conditions and the parameters it is given:
  it appends conditions and parameters that are aligned.
\<close>

definition extends :: "string list \<Rightarrow> param list \<Rightarrow> string list \<times> param list \<Rightarrow> bool" where
  "extends cs ps r = (\<exists>c p. r = (cs @ c, ps @ p) \<and> aligned c p)"

text \<open>
  The loop of \<^verbatim>\<open>parseMongoQuery\<close> over a value, and the body of the loop at an entry with
  that value, do so whenever they return.
\<close>

definition query_ok :: "jsval \<Rightarrow> bool" where
  "query_ok v = (\<forall>cs ps context r. for_in_query [] v cs ps context = Inr r \<longrightarrow> extends cs ps r)"

definition entry_ok :: "jsval \<Rightarrow> bool" where
  "entry_ok v =
     (\<forall>key cs ps context r. sound_entry key v \<longrightarrow>
        parse_key [] key v cs ps context = Inr r \<longrightarrow> extends cs ps r)"

text \<open>
  A step does not read the conditions and the parameters it is given: what it returns
  is what it returns on empty lists, appended to them.
\<close>

definition appended ::
  "'a list \<Rightarrow> param list \<Rightarrow> error + ('a list \<times> param list) \<Rightarrow> error + ('a list \<times> param list)" where
  "appended cs ps r = (case r of Inl e \<Rightarrow> Inl e | Inr (c, p) \<Rightarrow> Inr (cs @ c, ps @ p))"

definition framed ::
  "('a list \<Rightarrow> param list \<Rightarrow> error + ('a list \<times> param list)) \<Rightarrow> bool" where
  "framed f = (\<forall>cs ps. f cs ps = appended cs ps (f [] []))"

definition query_framed :: "jsval \<Rightarrow> bool" where
  "query_framed v = (\<forall>context. framed (\<lambda>cs ps. for_in_query [] v cs ps context))"

definition entry_framed :: "jsval \<Rightarrow> bool" where
  "entry_framed v = (\<forall>key context. framed (\<lambda>cs ps. parse_key [] key v cs ps context))"

section \<open>Auxiliary facts\<close>

lemma show_nat_0: "show_nat 0 = ''0''"
  by code_simp

lemma show_nat_1: "show_nat (Suc 0) = ''1''"
  by code_simp

section \<open>Empty sequences\<close>

text \<open>
  Claim C2. Whatever plugins are registered: an entry \<^verbatim>\<open>$and: []\<close> adds no condition,
  \<^verbatim>\<open>$or: []\<close> adds \<^verbatim>\<open>1=0\<close>, \<^verbatim>\<open>$nor: []\<close> adds \<^verbatim>\<open>1=1\<close>, \<^verbatim>\<open>field: {$in: []}\<close> adds
  \<^verbatim>\<open>1=0\<close> and \<^verbatim>\<open>field: {$nin: []}\<close> adds \<^verbatim>\<open>1=1\<close>, and none of them changes the
  parameter list. As the whole filter they give \<^verbatim>\<open>1=1\<close>, \<^verbatim>\<open>1=0\<close>, \<^verbatim>\<open>1=1\<close>, \<^verbatim>\<open>1=0\<close>
  and \<^verbatim>\<open>1=1\<close>.
\<close>

theorem empty_collection_policy:
  assumes "\<not> startsWith_dollar field"
  shows "parse_key pl ''$and'' (JArr []) conditions params context = Inr (conditions, params)
       \<and> parse_key pl ''$or'' (JArr []) conditions params context = Inr (conditions @ [''1=0''], params)
       \<and> parse_key pl ''$nor'' (JArr []) conditions params context = Inr (conditions @ [''1=1''], params)
       \<and> parse_key pl field (JObj [(''$in'', JArr [])]) conditions params context =
             Inr (conditions @ [''1=0''], params)
       \<and> parse_key pl field (JObj [(''$nin'', JArr [])]) conditions params context =
             Inr (conditions @ [''1=1''], params)
       \<and> parseMongoQuery pl (JObj [(''$and'', JArr [])]) params context = Inr (''1=1'', params)
       \<and> parseMongoQuery pl (JObj [(''$or'', JArr [])]) params context = Inr (''1=0'', params)
       \<and> parseMongoQuery pl (JObj [(''$nor'', JArr [])]) params context = Inr (''1=1'', params)
       \<and> parseMongoQuery pl (JObj [(field, JObj [(''$in'', JArr [])])]) params context =
             Inr (''1=0'', params)
       \<and> parseMongoQuery pl (JObj [(field, JObj [(''$nin'', JArr [])])]) params context =
             Inr (''1=1'', params)"
proof -
  have a: "\<And>conditions. parse_key pl ''$and'' (JArr []) conditions params context = Inr (conditions, params)"
    by (simp add: startsWith_dollar_def)
  have b: "\<And>conditions. parse_key pl ''$or'' (JArr []) conditions params context = Inr (conditions @ [''1=0''], params)"
    by (simp add: startsWith_dollar_def)
  have c: "\<And>conditions. parse_key pl ''$nor'' (JArr []) conditions params context = Inr (conditions @ [''1=1''], params)"
    by (simp add: startsWith_dollar_def)
  have d: "\<And>conditions. parse_key pl field (JObj [(''$in'', JArr [])]) conditions params context =
             Inr (conditions @ [''1=0''], params)"
    using assms
    by (simp add: startsWith_dollar_def as_SubQuery_def empty_array_operator_def push_field_conditions_def)
  have e: "\<And>conditions. parse_key pl field (JObj [(''$nin'', JArr [])]) conditions params context =
             Inr (conditions @ [''1=1''], params)"
    using assms
    by (simp add: startsWith_dollar_def as_SubQuery_def empty_array_operator_def push_field_conditions_def)
  have whole: "\<And>key v cs. parse_key pl key v [] params context = Inr (cs, params) \<Longrightarrow>
      parseMongoQuery pl (JObj [(key, v)]) params context =
        Inr (if cs \<noteq> [] then join_str '' AND '' cs else ''1=1'', params)"
    by (simp add: rethrow_def del: parse_key.simps)
  show ?thesis
    using a b c d e whole [OF a] whole [OF b] whole [OF c] whole [OF d] whole [OF e]
    by (simp del: parse_key.simps parseMongoQuery.simps)
qed

theorem empty_collection_policy_witness:
  "\<not> startsWith_dollar ''tags'' \<and>
   parseMongoQuery [] (JObj [(''tags'', JObj [(''$in'', JArr [])])]) [PVal (JNum 7)] ''root'' =
     Inr (''1=0'', [PVal (JNum 7)]) \<and>
   parseMongoQuery [] (JObj [(''tags'', JObj [(''$nin'', JArr [])])]) [PVal (JNum 7)] ''root'' =
     Inr (''1=1'', [PVal (JNum 7)])"
proof -
  have h: "\<not> startsWith_dollar ''tags''"
    by (simp add: startsWith_dollar_def)
  show ?thesis
    using h empty_collection_policy [OF h, of "[]" "[]" "[PVal (JNum 7)]" "''root''"]
    by (simp del: parse_key.simps parseMongoQuery.simps)
qed

section \<open>SubQuery\<close>

text \<open>
  \<^verbatim>\<open>SubQuery.toSQL\<close> returns a non-empty cache without a call of the wrapped builder;
  whenever it returns a text, that text is then the cache and the builder is the one
  it was.
\<close>

lemma SubQuery_toSQL_cached:
  "SubQuery_toSQL pl (SubQuery b (Some (c # cs))) = (Inr (c # cs), SubQuery b (Some (c # cs)), 0)"
  by simp

lemma SubQuery_toSQL_result:
  assumes "SubQuery_toSQL pl sq = (Inr s, sq', n)"
  shows "n \<le> 1 \<and> queryBuilder sq' = queryBuilder sq \<and> cachedSQL sq' = Some s \<and> s \<noteq> []"
proof (cases sq)
  case (SubQuery b cache)
  show ?thesis
    using assms unfolding SubQuery
    by (auto simp del: MongoQueryBuilder_toSQL.simps split: option.splits list.splits sum.splits)
qed

text \<open>
  Claim C3, as amended. \<^verbatim>\<open>SubQuery.toSQL\<close> calls the wrapped builder's \<^verbatim>\<open>toSQL\<close> at most
  once, keeps the text in the cache, and never calls it again: a further \<^verbatim>\<open>toSQL\<close>
  makes no call. \<^verbatim>\<open>SubQuery.getParams\<close> calls the wrapped builder's \<^verbatim>\<open>toSQL\<close> once on
  every access. So the first embedding of a subquery compiles the builder twice, once
  for the text and once for the parameters; the two are the text and the parameters of
  the statement of the builder as long as the builder is the same at both calls, and
  they are what the surrounding translation pushes.
\<close>

theorem subquery_compiles_on_every_access:
  "(SubQuery_toSQL pl sq = (Inr s, sq', n) \<longrightarrow>
      n \<le> 1 \<and> queryBuilder sq' = queryBuilder sq \<and> cachedSQL sq' = Some s \<and>
      SubQuery_toSQL pl sq' = (Inr s, sq', 0))
   \<and> snd (SubQuery_getParams pl sq) = 1
   \<and> (cachedSQL sq = None \<and> MongoQueryBuilder_toSQL pl (queryBuilder sq) = Inr (sql, ps) \<longrightarrow>
        SubQuery_toSQL pl sq =
          (Inr (''('' @ sql @ '')''), SubQuery (queryBuilder sq) (Some (''('' @ sql @ '')'')), 1)
        \<and> SubQuery_getParams pl (SubQuery (queryBuilder sq) (Some (''('' @ sql @ '')''))) = (Inr ps, 1)
        \<and> push_subquery pl sq field conditions params =
            Inr (conditions @ [field @ '' IN ('' @ sql @ '')''], params @ ps))"
proof -
  have a: "n \<le> 1 \<and> queryBuilder sq' = queryBuilder sq \<and> cachedSQL sq' = Some s \<and>
      SubQuery_toSQL pl sq' = (Inr s, sq', 0)"
    if h: "SubQuery_toSQL pl sq = (Inr s, sq', n)"
  proof -
    from SubQuery_toSQL_result [OF h] obtain c cs where s: "s = c # cs"
      and r: "n \<le> 1" "queryBuilder sq' = queryBuilder sq" "cachedSQL sq' = Some s"
      by (cases s) auto
    from r(3) s have "sq' = SubQuery (queryBuilder sq') (Some (c # cs))"
      by (cases sq') simp
    then have "SubQuery_toSQL pl sq' = (Inr s, sq', 0)"
      using SubQuery_toSQL_cached [of pl "queryBuilder sq'" c cs] s by simp
    with r show ?thesis by simp
  qed
  have b: "snd (SubQuery_getParams pl sq) = 1"
    by (cases sq) (auto simp del: MongoQueryBuilder_toSQL.simps split: sum.splits)
  have c: "SubQuery_toSQL pl sq =
          (Inr (''('' @ sql @ '')''), SubQuery (queryBuilder sq) (Some (''('' @ sql @ '')'')), 1)
        \<and> SubQuery_getParams pl (SubQuery (queryBuilder sq) (Some (''('' @ sql @ '')''))) = (Inr ps, 1)
        \<and> push_subquery pl sq field conditions params =
            Inr (conditions @ [field @ '' IN ('' @ sql @ '')''], params @ ps)"
    if "cachedSQL sq = None" "MongoQueryBuilder_toSQL pl (queryBuilder sq) = Inr (sql, ps)"
    using that
    by (cases sq) (auto simp del: MongoQueryBuilder_toSQL.simps)
  show ?thesis
    using a b c by blast
qed

text \<open>A subquery over \<^verbatim>\<open>new MongoQueryBuilder("t").query({a: 1})\<close>.\<close>

theorem subquery_compiles_witness:
  "MongoQueryBuilder_toSQL [] (MongoQueryBuilder ''t'' (JObj [(''a'', JNum 1)]) None [] (JStr []) JNull JNull) =
     Inr (''SELECT * FROM t WHERE a = ?'', [PVal (JNum 1)])
   \<and> SubQuery_toSQL []
        (SubQuery (MongoQueryBuilder ''t'' (JObj [(''a'', JNum 1)]) None [] (JStr []) JNull JNull) None) =
       (Inr ''(SELECT * FROM t WHERE a = ?)'',
        SubQuery (MongoQueryBuilder ''t'' (JObj [(''a'', JNum 1)]) None [] (JStr []) JNull JNull)
          (Some ''(SELECT * FROM t WHERE a = ?)''), 1)
   \<and> SubQuery_toSQL []
        (SubQuery (MongoQueryBuilder ''t'' (JObj [(''a'', JNum 1)]) None [] (JStr []) JNull JNull)
          (Some ''(SELECT * FROM t WHERE a = ?)'')) =
       (Inr ''(SELECT * FROM t WHERE a = ?)'',
        SubQuery (MongoQueryBuilder ''t'' (JObj [(''a'', JNum 1)]) None [] (JStr []) JNull JNull)
          (Some ''(SELECT * FROM t WHERE a = ?)''), 0)
   \<and> push_subquery []
        (SubQuery (MongoQueryBuilder ''t'' (JObj [(''a'', JNum 1)]) None [] (JStr []) JNull JNull) None)
        ''id'' [] [] =
       Inr ([''id IN (SELECT * FROM t WHERE a = ?)''], [PVal (JNum 1)])"
proof -
  let ?b = "MongoQueryBuilder ''t'' (JObj [(''a'', JNum 1)]) None [] (JStr []) JNull JNull"
  have c: "MongoQueryBuilder_toSQL [] ?b = Inr (''SELECT * FROM t WHERE a = ?'', [PVal (JNum 1)])"
    by code_simp
  have n: "cachedSQL (SubQuery ?b None) = None"
    by simp
  have t: "SubQuery_toSQL [] (SubQuery ?b None) =
       (Inr ''(SELECT * FROM t WHERE a = ?)'', SubQuery ?b (Some ''(SELECT * FROM t WHERE a = ?)''), 1)"
    and p: "push_subquery [] (SubQuery ?b None) ''id'' [] [] =
       Inr ([''id IN (SELECT * FROM t WHERE a = ?)''], [PVal (JNum 1)])"
    using subquery_compiles_on_every_access
      [of "[]" "SubQuery ?b None" "''x''" "SubQuery ?b None" 0
          "''SELECT * FROM t WHERE a = ?''" "[PVal (JNum 1)]" "''id''" "[]" "[]"] c n
    by (simp_all del: SubQuery_toSQL.simps push_subquery.simps MongoQueryBuilder_toSQL.simps)
  have t2: "SubQuery_toSQL [] (SubQuery ?b (Some ''(SELECT * FROM t WHERE a = ?)'')) =
       (Inr ''(SELECT * FROM t WHERE a = ?)'', SubQuery ?b (Some ''(SELECT * FROM t WHERE a = ?)''), 0)"
    using subquery_compiles_on_every_access
      [of "[]" "SubQuery ?b None" "''(SELECT * FROM t WHERE a = ?)''"
          "SubQuery ?b (Some ''(SELECT * FROM t WHERE a = ?)'')" 1
          "''SELECT * FROM t WHERE a = ?''" "[PVal (JNum 1)]" "''id''" "[]" "[]"] t
    by (simp del: SubQuery_toSQL.simps push_subquery.simps MongoQueryBuilder_toSQL.simps)
  from c t t2 p show ?thesis
    by (simp del: SubQuery_toSQL.simps push_subquery.simps MongoQueryBuilder_toSQL.simps)
qed

text \<open>
  The claim as stated fails. \<^verbatim>\<open>toSQL()\<close> followed by \<^verbatim>\<open>getParams()\<close> calls the wrapped
  builder's \<^verbatim>\<open>toSQL\<close> twice, not once. And the two results need not come from one
  pass: after \<^verbatim>\<open>toSQL()\<close> has filled the cache and the builder has got a second filter
  by \<^verbatim>\<open>query({b: 2})\<close>, \<^verbatim>\<open>toSQL()\<close> still returns the cached text with one placeholder
  and \<^verbatim>\<open>getParams()\<close> returns the two parameters of the builder as it is now.
\<close>

theorem subquery_compiles_twice_and_goes_stale:
  "SubQuery_toSQL []
     (SubQuery (MongoQueryBuilder ''t'' (JObj [(''a'', JNum 1)]) None [] (JStr []) JNull JNull) None) =
     (Inr ''(SELECT * FROM t WHERE a = ?)'',
      SubQuery (MongoQueryBuilder ''t'' (JObj [(''a'', JNum 1)]) None [] (JStr []) JNull JNull)
        (Some ''(SELECT * FROM t WHERE a = ?)''), 1)
   \<and> SubQuery_getParams []
       (SubQuery (MongoQueryBuilder ''t'' (JObj [(''a'', JNum 1)]) None [] (JStr []) JNull JNull)
          (Some ''(SELECT * FROM t WHERE a = ?)'')) =
     (Inr [PVal (JNum 1)], 1)
   \<and> MongoQueryBuilder_query
       (MongoQueryBuilder ''t'' (JObj [(''a'', JNum 1)]) None [] (JStr []) JNull JNull)
       (JObj [(''b'', JNum 2)]) =
     Inr (MongoQueryBuilder ''t'' (JObj [(''$and'', JArr [JObj [(''a'', JNum 1)], JObj [(''b'', JNum 2)]])])
            None [] (JStr []) JNull JNull)
   \<and> SubQuery_toSQL []
       (SubQuery (MongoQueryBuilder ''t''
                    (JObj [(''$and'', JArr [JObj [(''a'', JNum 1)], JObj [(''b'', JNum 2)]])])
                    None [] (JStr []) JNull JNull)
          (Some ''(SELECT * FROM t WHERE a = ?)'')) =
     (Inr ''(SELECT * FROM t WHERE a = ?)'',
      SubQuery (MongoQueryBuilder ''t''
                  (JObj [(''$and'', JArr [JObj [(''a'', JNum 1)], JObj [(''b'', JNum 2)]])])
                  None [] (JStr []) JNull JNull)
        (Some ''(SELECT * FROM t WHERE a = ?)''), 0)
   \<and> SubQuery_getParams []
       (SubQuery (MongoQueryBuilder ''t''
                    (JObj [(''$and'', JArr [JObj [(''a'', JNum 1)], JObj [(''b'', JNum 2)]])])
                    None [] (JStr []) JNull JNull)
          (Some ''(SELECT * FROM t WHERE a = ?)'')) =
     (Inr [PVal (JNum 1), PVal (JNum 2)], 1)
   \<and> placeholders ''(SELECT * FROM t WHERE a = ?)'' \<noteq> length [PVal (JNum 1), PVal (JNum 2)]"
  by code_simp

section \<open>Plugins\<close>




section \<open>The guard of the mutating statements\<close>

text \<open>
  Claim C5. \<^verbatim>\<open>toSQL\<close> of an Update builder and of a Delete builder whose filter has no
  key fails with the \<^verbatim>\<open>SQLGenerationError\<close> of the missing filter, and so returns no
  statement. A new builder has such a filter; \<^verbatim>\<open>update\<close> and \<^verbatim>\<open>single\<close> leave the
  filter as it is, and \<^verbatim>\<open>query\<close> with an empty object leaves it empty.
\<close>

theorem missing_filter_is_fatal:
  "(Object_keys (ub_filter u) = Inr [] \<longrightarrow>
      MongoUpdateBuilder_toSQL pl u =
        Inl (handleError update_missing_filter ''MongoUpdateBuilder'' SQLGenerationError))
   \<and> (Object_keys (db_filter d) = Inr [] \<longrightarrow>
      MongoDeleteBuilder_toSQL pl d =
        Inl (handleError delete_missing_filter ''MongoDeleteBuilder'' SQLGenerationError))
   \<and> Object_keys (ub_filter (MongoUpdateBuilder_new tableName idField)) = Inr []
   \<and> Object_keys (db_filter (MongoDeleteBuilder_new tableName)) = Inr []
   \<and> (MongoUpdateBuilder_update u updateData = Inr u' \<longrightarrow> ub_filter u' = ub_filter u)
   \<and> ub_filter (MongoUpdateBuilder_single u) = ub_filter u
   \<and> db_filter (MongoDeleteBuilder_single d) = db_filter d
   \<and> (Object_keys (ub_filter u) = Inr [] \<longrightarrow>
        MongoUpdateBuilder_query u (JObj []) = Inr (u\<lparr>ub_filter := JObj []\<rparr>))
   \<and> (Object_keys (db_filter d) = Inr [] \<longrightarrow>
        MongoDeleteBuilder_query d (JObj []) = Inr (d\<lparr>db_filter := JObj []\<rparr>))"
  by (auto simp: MongoUpdateBuilder_toSQL_def MongoDeleteBuilder_toSQL_def
        MongoUpdateBuilder_new_def MongoDeleteBuilder_new_def Object_keys_def
        MongoUpdateBuilder_update_def MongoUpdateBuilder_single_def MongoDeleteBuilder_single_def
        MongoUpdateBuilder_query_def MongoDeleteBuilder_query_def query_filter_def
        split: jsval.splits sum.splits)

text \<open>
  The two examples of the repository's tests: an update with data and no filter, and a
  new Delete builder.
\<close>

theorem missing_filter_witness:
  "MongoUpdateBuilder_update (MongoUpdateBuilder_new ''users'' ''id'') (JObj [(''name'', JStr ''Error'')]) =
     Inr \<lparr>ub_tableName = ''users'', ub_idField = ''id'',
          ub_dataObj = JObj [(''$set'', JObj [(''name'', JStr ''Error'')])],
          ub_dataArray = None, ub_filter = JObj [], ub_singleUpdate = False\<rparr>
   \<and> Object_keys (JObj []) = Inr []
   \<and> MongoUpdateBuilder_toSQL []
        \<lparr>ub_tableName = ''users'', ub_idField = ''id'',
         ub_dataObj = JObj [(''$set'', JObj [(''name'', JStr ''Error'')])],
         ub_dataArray = None, ub_filter = JObj [], ub_singleUpdate = False\<rparr> =
       Inl (handleError update_missing_filter ''MongoUpdateBuilder'' SQLGenerationError)
   \<and> MongoDeleteBuilder_toSQL [] (MongoDeleteBuilder_new ''users'') =
       Inl (handleError delete_missing_filter ''MongoDeleteBuilder'' SQLGenerationError)
   \<and> err_name (handleError update_missing_filter ''MongoUpdateBuilder'' SQLGenerationError) = SQLGenerationError"
proof -
  have k: "Object_keys (JObj []) = Inr []"
    by (simp add: Object_keys_def)
  have u: "MongoUpdateBuilder_update (MongoUpdateBuilder_new ''users'' ''id'') (JObj [(''name'', JStr ''Error'')]) =
     Inr \<lparr>ub_tableName = ''users'', ub_idField = ''id'',
          ub_dataObj = JObj [(''$set'', JObj [(''name'', JStr ''Error'')])],
          ub_dataArray = None, ub_filter = JObj [], ub_singleUpdate = False\<rparr>"
    by (simp add: MongoUpdateBuilder_update_def MongoUpdateBuilder_new_def startsWith_dollar_def)
  have n: "err_name (handleError update_missing_filter ''MongoUpdateBuilder'' SQLGenerationError) = SQLGenerationError"
    by (simp add: handleError_def new_Error_def)
  show ?thesis
    using k u n
      missing_filter_is_fatal [of "\<lparr>ub_tableName = ''users'', ub_idField = ''id'',
          ub_dataObj = JObj [(''$set'', JObj [(''name'', JStr ''Error'')])],
          ub_dataArray = None, ub_filter = JObj [], ub_singleUpdate = False\<rparr>" "[]"
          "MongoDeleteBuilder_new ''users''" "''users''" "''id''"]
    by (simp add: MongoDeleteBuilder_new_def)
qed

section \<open>Accumulated filters\<close>

text \<open>
  The translation of an explicit \<^verbatim>\<open>$and\<close> of two filters: the first is translated,
  then the second with the parameters the first has left, and the two texts are joined
  by AND; a failure of either is rethrown by the frame.
\<close>

lemma parse_and_pair:
  "parseMongoQuery pl (JObj [(''$and'', JArr [A, B])]) params context =
     (case parseMongoQuery pl A params (context @ ''->AND[0]'') of
        Inl e \<Rightarrow> Inl (new_Error QueryParseError (err_message e) context)
      | Inr (condA, params1) \<Rightarrow>
          (case parseMongoQuery pl B params1 (context @ ''->AND[1]'') of
             Inl e \<Rightarrow> Inl (new_Error QueryParseError (err_message e) context)
           | Inr (condB, params2) \<Rightarrow>
               Inr (if filter (\<lambda>c. c \<noteq> []) [condA, condB] \<noteq> []
                    then join_str '' AND '' (filter (\<lambda>c. c \<noteq> []) [condA, condB])
                    else ''1=1'', params2)))"
proof -
  have m: "map_parseMongoQuery pl [A, B] params context ''AND'' 0 =
     (case parseMongoQuery pl A params (context @ ''->AND[0]'') of
        Inl e \<Rightarrow> Inl e
      | Inr (condA, params1) \<Rightarrow>
          (case parseMongoQuery pl B params1 (context @ ''->AND[1]'') of
             Inl e \<Rightarrow> Inl e
           | Inr (condB, params2) \<Rightarrow> Inr ([condA, condB], params2)))"
    by (simp add: show_nat_0 show_nat_1 del: parseMongoQuery.simps split: sum.splits prod.splits)
  have k: "parse_key pl ''$and'' (JArr [A, B]) [] params context =
     (case map_parseMongoQuery pl [A, B] params context ''AND'' 0 of
        Inl e \<Rightarrow> Inl e
      | Inr (conds, params') \<Rightarrow>
          (if filter (\<lambda>c. c \<noteq> []) conds \<noteq> []
           then Inr ([join_str '' AND '' (filter (\<lambda>c. c \<noteq> []) conds)], params')
           else Inr ([], params')))"
    by (simp add: startsWith_dollar_def Let_def del: map_parseMongoQuery.simps split: sum.splits prod.splits)
  show ?thesis
    unfolding parseMongoQuery.simps [of pl "JObj [(''$and'', JArr [A, B])]"]
      for_in_query.simps for_in_entries.simps k m
    by (auto simp: rethrow_def split: sum.splits prod.splits simp del: parseMongoQuery.simps)
qed

text \<open>
  Claim C6, as amended. When the first filter \<^verbatim>\<open>A\<close> has a key and no truthy property
  \<^verbatim>\<open>$and\<close>, the method \<^verbatim>\<open>query\<close> called with \<^verbatim>\<open>A\<close> and then with \<^verbatim>\<open>B\<close> on a new builder
  leaves the filter \<^verbatim>\<open>{$and: [A, B]}\<close>, the same builder as one call with that filter (for
  the Select, Update and Delete builders); its translation is that of \<^verbatim>\<open>A\<close> followed by
  that of \<^verbatim>\<open>B\<close>, joined by AND, with the parameters of \<^verbatim>\<open>A\<close> before those of \<^verbatim>\<open>B\<close>.
\<close>

theorem repeated_query_is_explicit_and:
  assumes "Object_keys A = Inr (k # ks)"
    and "\<not> truthy (prop_or_undef A ''$and'')"
  shows "query_filter (JObj []) A = Inr A
       \<and> query_filter A B = Inr (JObj [(''$and'', JArr [A, B])])
       \<and> query_filter (JObj []) (JObj [(''$and'', JArr [A, B])]) = Inr (JObj [(''$and'', JArr [A, B])])
       \<and> (case MongoQueryBuilder_query (MongoQueryBuilder_new tableName) A of
             Inl e \<Rightarrow> Inl e | Inr b \<Rightarrow> MongoQueryBuilder_query b B) =
           MongoQueryBuilder_query (MongoQueryBuilder_new tableName) (JObj [(''$and'', JArr [A, B])])
       \<and> (case MongoUpdateBuilder_query (MongoUpdateBuilder_new tableName idField) A of
             Inl e \<Rightarrow> Inl e | Inr b \<Rightarrow> MongoUpdateBuilder_query b B) =
           MongoUpdateBuilder_query (MongoUpdateBuilder_new tableName idField) (JObj [(''$and'', JArr [A, B])])
       \<and> (case MongoDeleteBuilder_query (MongoDeleteBuilder_new tableName) A of
             Inl e \<Rightarrow> Inl e | Inr b \<Rightarrow> MongoDeleteBuilder_query b B) =
           MongoDeleteBuilder_query (MongoDeleteBuilder_new tableName) (JObj [(''$and'', JArr [A, B])])
       \<and> parseMongoQuery pl (JObj [(''$and'', JArr [A, B])]) params context =
           (case parseMongoQuery pl A params (context @ ''->AND[0]'') of
              Inl e \<Rightarrow> Inl (new_Error QueryParseError (err_message e) context)
            | Inr (condA, params1) \<Rightarrow>
                (case parseMongoQuery pl B params1 (context @ ''->AND[1]'') of
                   Inl e \<Rightarrow> Inl (new_Error QueryParseError (err_message e) context)
                 | Inr (condB, params2) \<Rightarrow>
                     Inr (if filter (\<lambda>c. c \<noteq> []) [condA, condB] \<noteq> []
                          then join_str '' AND '' (filter (\<lambda>c. c \<noteq> []) [condA, condB])
                          else ''1=1'', params2)))"
proof -
  have q1: "query_filter (JObj []) X = Inr X" for X
    by (simp add: query_filter_def Object_keys_def)
  have q2: "query_filter A B = Inr (JObj [(''$and'', JArr [A, B])])"
    using assms by (simp add: query_filter_def)
  show ?thesis
    using q1 q2 parse_and_pair [of pl A B params "context"]
    by (simp add: MongoQueryBuilder_query_def MongoQueryBuilder_new_def
          MongoUpdateBuilder_query_def MongoUpdateBuilder_new_def
          MongoDeleteBuilder_query_def MongoDeleteBuilder_new_def
          del: parseMongoQuery.simps)
qed

text \<open>The first example of the repository: \<^verbatim>\<open>{age: {$gt: 18}}\<close>, then \<^verbatim>\<open>{name: {$like: "%John%"}}\<close>.\<close>

theorem repeated_query_witness:
  "Object_keys (JObj [(''age'', JObj [(''$gt'', JNum 18)])]) = Inr [''age'']
   \<and> \<not> truthy (prop_or_undef (JObj [(''age'', JObj [(''$gt'', JNum 18)])]) ''$and'')
   \<and> query_filter (JObj [(''age'', JObj [(''$gt'', JNum 18)])])
        (JObj [(''name'', JObj [(''$like'', JStr ''%John%'')])]) =
       Inr (JObj [(''$and'', JArr [JObj [(''age'', JObj [(''$gt'', JNum 18)])],
                                   JObj [(''name'', JObj [(''$like'', JStr ''%John%'')])]])])
   \<and> parseMongoQuery []
        (JObj [(''$and'', JArr [JObj [(''age'', JObj [(''$gt'', JNum 18)])],
                                JObj [(''name'', JObj [(''$like'', JStr ''%John%'')])]])]) [] ''SELECT'' =
       Inr (''age > ? AND name LIKE ?'', [PVal (JNum 18), PVal (JStr ''%John%'')])"
proof -
  let ?A = "JObj [(''age'', JObj [(''$gt'', JNum 18)])]"
  let ?B = "JObj [(''name'', JObj [(''$like'', JStr ''%John%'')])]"
  have k: "Object_keys ?A = Inr [''age'']"
    by (simp add: Object_keys_def)
  have t: "\<not> truthy (prop_or_undef ?A ''$and'')"
    by (simp add: prop_or_undef_def get_prop_def)
  have a: "parseMongoQuery [] ?A [] ''SELECT->AND[0]'' = Inr (''age > ?'', [PVal (JNum 18)])"
    by code_simp
  have b: "parseMongoQuery [] ?B [PVal (JNum 18)] ''SELECT->AND[1]'' =
             Inr (''name LIKE ?'', [PVal (JNum 18), PVal (JStr ''%John%'')])"
    by code_simp
  show ?thesis
    using k t repeated_query_is_explicit_and [OF k t, of ?B "''t''" "''id''" "[]" "[]" "''SELECT''"] a b
    by (simp del: parseMongoQuery.simps)
qed

text \<open>
  The claim as stated fails. For \<^verbatim>\<open>A = {$and: [{a: 1}], c: 3}\<close> and \<^verbatim>\<open>B = {b: 2}\<close> the
  second call pushes \<^verbatim>\<open>B\<close> onto the \<^verbatim>\<open>$and\<close> of \<^verbatim>\<open>A\<close>: the filter is
  \<^verbatim>\<open>{$and: [{a: 1}, {b: 2}], c: 3}\<close>, and the condition of \<^verbatim>\<open>B\<close> and its parameter come
  before the condition \<^verbatim>\<open>c = ?\<close> of \<^verbatim>\<open>A\<close>, where \<^verbatim>\<open>{$and: [A, B]}\<close> puts them last. For
  the empty \<^verbatim>\<open>A\<close> the second call sets the filter to \<^verbatim>\<open>B\<close>, which translates to another
  text than \<^verbatim>\<open>{$and: [{}, B]}\<close>.
\<close>

theorem repeated_query_appends_to_existing_and:
  "query_filter (JObj []) (JObj [(''$and'', JArr [JObj [(''a'', JNum 1)]]), (''c'', JNum 3)]) =
     Inr (JObj [(''$and'', JArr [JObj [(''a'', JNum 1)]]), (''c'', JNum 3)])
   \<and> query_filter (JObj [(''$and'', JArr [JObj [(''a'', JNum 1)]]), (''c'', JNum 3)])
        (JObj [(''b'', JNum 2)]) =
     Inr (JObj [(''$and'', JArr [JObj [(''a'', JNum 1)], JObj [(''b'', JNum 2)]]), (''c'', JNum 3)])
   \<and> parseMongoQuery []
        (JObj [(''$and'', JArr [JObj [(''a'', JNum 1)], JObj [(''b'', JNum 2)]]), (''c'', JNum 3)])
        [] ''SELECT'' =
     Inr (''a = ? AND b = ? AND c = ?'', [PVal (JNum 1), PVal (JNum 2), PVal (JNum 3)])
   \<and> parseMongoQuery []
        (JObj [(''$and'', JArr [JObj [(''$and'', JArr [JObj [(''a'', JNum 1)]]), (''c'', JNum 3)],
                                JObj [(''b'', JNum 2)]])])
        [] ''SELECT'' =
     Inr (''a = ? AND c = ? AND b = ?'', [PVal (JNum 1), PVal (JNum 3), PVal (JNum 2)])
   \<and> query_filter (JObj []) (JObj []) = Inr (JObj [])
   \<and> query_filter (JObj []) (JObj [(''b'', JNum 2)]) = Inr (JObj [(''b'', JNum 2)])
   \<and> parseMongoQuery [] (JObj [(''b'', JNum 2)]) [] ''SELECT'' = Inr (''b = ?'', [PVal (JNum 2)])
   \<and> parseMongoQuery [] (JObj [(''$and'', JArr [JObj [], JObj [(''b'', JNum 2)]])]) [] ''SELECT'' =
     Inr (''1=1 AND b = ?'', [PVal (JNum 2)])"
  by code_simp

section \<open>Paging\<close>

text \<open>
  The Select builder: once a skip value is set, the statement ends with
  \<^verbatim>\<open>LIMIT 18446744073709551615 OFFSET skip\<close> when no limit is set and with
  \<^verbatim>\<open>LIMIT limit OFFSET skip\<close> when one is. This holds for every value, zero included.
\<close>

lemma select_offset_policy:
  assumes "MongoQueryBuilder_toSQL pl
             (MongoQueryBuilder tableName flt projection joinConfigs sortClause limitValue offsetValue) =
           Inr (sql, params)"
    and "offsetValue \<noteq> JNull"
  shows "(limitValue = JNull \<longrightarrow>
            (\<exists>pre. sql = pre @ '' LIMIT 18446744073709551615 OFFSET '' @ js_to_string offsetValue))
       \<and> (limitValue \<noteq> JNull \<longrightarrow>
            (\<exists>pre. sql = pre @ '' LIMIT '' @ js_to_string limitValue @
                          '' OFFSET '' @ js_to_string offsetValue))"
proof -
  from assms(1) obtain pre where "sql = pre @ order_and_paging sortClause limitValue offsetValue"
    by (auto split: sum.splits simp del: parseMongoQuery.simps)
  then show ?thesis
    using assms(2) by (auto simp: order_and_paging_def)
qed

text \<open>
  The aggregation builder: the same holds for the last truthy skip and limit values
  of the pipeline.
\<close>

lemma agg_stage_paging:
  "agg_stage pl tableName st a = Inr a' \<Longrightarrow>
   ag_limitClause a' = final_limit [st] (ag_limitClause a) \<and>
   ag_offsetClause a' = final_skip [st] (ag_offsetClause a)"
  by (cases st) (auto simp: agg_stage_def split: if_splits sum.splits jsval.splits simp del: parseMongoQuery.simps)

lemma final_limit_Cons: "final_limit (st # rest) l = final_limit rest (final_limit [st] l)"
  by (cases st) auto

lemma final_skip_Cons: "final_skip (st # rest) s = final_skip rest (final_skip [st] s)"
  by (cases st) auto

lemma agg_stages_paging:
  "agg_stages pl tableName pipeline a = Inr a' \<Longrightarrow>
   ag_limitClause a' = final_limit pipeline (ag_limitClause a) \<and>
   ag_offsetClause a' = final_skip pipeline (ag_offsetClause a)"
proof (induction pipeline arbitrary: a)
  case Nil
  then show ?case by simp
next
  case (Cons st rest)
  from Cons.prems obtain a1 where 1: "agg_stage pl tableName st a = Inr a1"
    and 2: "agg_stages pl tableName rest a1 = Inr a'"
    by (auto split: sum.splits)
  from Cons.IH [OF 2] agg_stage_paging [OF 1] show ?case
    by (simp add: final_limit_Cons [of st rest] final_skip_Cons [of st rest])
qed

lemma aggregation_offset_policy:
  assumes "MongoAggregationBuilder_toSQL pl b = Inr ((sql, params), b')"
    and "truthy (final_skip (ab_pipeline b) (JStr []))"
  shows "(\<not> truthy (final_limit (ab_pipeline b) (JStr [])) \<longrightarrow>
            (\<exists>pre. sql = pre @ '' LIMIT 18446744073709551615 OFFSET '' @
                          js_to_string (final_skip (ab_pipeline b) (JStr []))))
       \<and> (truthy (final_limit (ab_pipeline b) (JStr [])) \<longrightarrow>
            (\<exists>pre. sql = pre @ '' LIMIT '' @ js_to_string (final_limit (ab_pipeline b) (JStr [])) @
                          '' OFFSET '' @ js_to_string (final_skip (ab_pipeline b) (JStr []))))"
proof -
  from assms(1) obtain a where a: "agg_stages pl (ab_tableName b) (ab_pipeline b)
             \<lparr>ag_params = [], ag_whereConditions = [], ag_groupClause = [],
              ag_havingClause = [], ag_selectClause = ''*'', ag_orderClause = [],
              ag_limitClause = JStr [], ag_offsetClause = JStr [], ag_comments = [],
              ag_joinClause = ab_joinClause b\<rparr> = Inr a"
    and sql: "sql = agg_assemble (ab_tableName b) a"
    by (auto simp: MongoAggregationBuilder_toSQL_def split: sum.splits)
  from agg_stages_paging [OF a] have l: "ag_limitClause a = final_limit (ab_pipeline b) (JStr [])"
    and s: "ag_offsetClause a = final_skip (ab_pipeline b) (JStr [])"
    by simp_all
  show ?thesis
    using assms(2) unfolding sql agg_assemble_def l s
    by (auto simp: append_eq_append_conv2) 
qed

text \<open>
  Claim C7. The claim holds of the Select builder; the aggregation builder tests the
  values for truthiness, and so takes a limit or a skip of zero for one that was not
  set. With \<^verbatim>\<open>limit(0).skip(5)\<close> the aggregation builder emits the unbounded LIMIT
  where the Select builder emits \<^verbatim>\<open>LIMIT 0 OFFSET 5\<close>; with \<^verbatim>\<open>skip(0)\<close> alone it emits
  no LIMIT and no OFFSET where the Select builder emits both.
\<close>

theorem aggregation_drops_zero_limit:
  "map_sum id fst
     (MongoAggregationBuilder_toSQL []
        (MongoAggregationBuilder_skip
           (MongoAggregationBuilder_limit (MongoAggregationBuilder_new ''orders'') (JNum 0))
           (JNum 5))) =
     Inr (''SELECT * FROM orders LIMIT 18446744073709551615 OFFSET 5'', [])
   \<and> MongoQueryBuilder_toSQL []
        (MongoQueryBuilder_skip (MongoQueryBuilder_limit (MongoQueryBuilder_new ''orders'') (JNum 0))
           (JNum 5)) =
     Inr (''SELECT * FROM orders WHERE 1=1 LIMIT 0 OFFSET 5'', [])
   \<and> map_sum id fst
        (MongoAggregationBuilder_toSQL []
           (MongoAggregationBuilder_skip (MongoAggregationBuilder_new ''orders'') (JNum 0))) =
     Inr (''SELECT * FROM orders'', [])
   \<and> MongoQueryBuilder_toSQL []
        (MongoQueryBuilder_skip (MongoQueryBuilder_new ''orders'') (JNum 0)) =
     Inr (''SELECT * FROM orders WHERE 1=1 LIMIT 18446744073709551615 OFFSET 0'', [])"
  by code_simp

section \<open>Bulk update\<close>

text \<open>
  The loops of the bulk form compute the notions of the specification: the set of
  columns is filled in the order of first occurrence, the arms of a column are one
  \<^verbatim>\<open>WHEN ? THEN ?\<close> per row that has the column, and the parameters of a column are
  the identity and the value of those rows.
\<close>

lemma set_first_seen [simp]: "set (first_seen xs) = set xs"
  by (induction xs rule: first_seen.induct) auto

lemma filter_swap: "filter P (filter Q xs) = filter Q (filter P xs)"
  by (induction xs) auto

lemma first_seen_filter: "first_seen (filter P xs) = filter P (first_seen xs)"
proof (induction xs rule: first_seen.induct)
  case 1
  then show ?case by simp
next
  case (2 x xs)
  note IH = 2
  show ?case
  proof (cases "P x")
    case True
    have "first_seen (filter P (x # xs)) = x # first_seen (filter (\<lambda>y. y \<noteq> x) (filter P xs))"
      using True by (simp del: filter_filter)
    also have "filter (\<lambda>y. y \<noteq> x) (filter P xs) = filter P (filter (\<lambda>y. y \<noteq> x) xs)"
      by (rule filter_swap)
    also have "first_seen (filter P (filter (\<lambda>y. y \<noteq> x) xs)) =
               filter P (first_seen (filter (\<lambda>y. y \<noteq> x) xs))"
      by (rule IH)
    finally show ?thesis
      using True by (simp del: filter_filter)
  next
    case False
    have "filter P (x # xs) = filter P (filter (\<lambda>y. y \<noteq> x) xs)"
      using False by (auto intro: filter_cong)
    then have "first_seen (filter P (x # xs)) = filter P (first_seen (filter (\<lambda>y. y \<noteq> x) xs))"
      using IH by (simp del: filter_filter)
    then show ?thesis
      using False by (simp del: filter_filter)
  qed
qed

lemma first_seen_append:
  "first_seen (xs @ ys) = first_seen xs @ first_seen (filter (\<lambda>y. y \<notin> set xs) ys)"
proof (induction xs arbitrary: ys rule: first_seen.induct)
  case 1
  then show ?case by simp
next
  case (2 x xs)
  have "first_seen ((x # xs) @ ys) = x # first_seen (filter (\<lambda>y. y \<noteq> x) xs @ filter (\<lambda>y. y \<noteq> x) ys)"
    by simp
  also have "\<dots> = x # first_seen (filter (\<lambda>y. y \<noteq> x) xs) @
      first_seen (filter (\<lambda>y. y \<notin> set (filter (\<lambda>y. y \<noteq> x) xs)) (filter (\<lambda>y. y \<noteq> x) ys))"
    using 2 [of "filter (\<lambda>y. y \<noteq> x) ys"] by simp
  also have "filter (\<lambda>y. y \<notin> set (filter (\<lambda>y. y \<noteq> x) xs)) (filter (\<lambda>y. y \<noteq> x) ys) =
      filter (\<lambda>y. y \<notin> set (x # xs)) ys"
    by (auto intro: filter_cong)
  finally show ?case by simp
qed

lemma add_columns_eq:
  "add_columns idField keys acc =
     acc @ first_seen (filter (\<lambda>key. key \<noteq> idField \<and> key \<notin> set acc) keys)"
proof (induction keys arbitrary: acc)
  case Nil
  then show ?case by simp
next
  case (Cons key keys)
  show ?case
  proof (cases "key \<noteq> idField \<and> key \<notin> set acc")
    case True
    have "filter (\<lambda>y. y \<noteq> key) (filter (\<lambda>k. k \<noteq> idField \<and> k \<notin> set acc) keys) =
          filter (\<lambda>k. k \<noteq> idField \<and> k \<notin> set (acc @ [key])) keys"
      by (auto intro: filter_cong)
    with True Cons [of "acc @ [key]"] show ?thesis by simp
  next
    case False
    with Cons [of acc] show ?thesis by auto
  qed
qed

lemma collect_columns_eq:
  "collect_columns idField (map JObj rows) acc =
     acc @ first_seen (filter (\<lambda>key. key \<noteq> idField \<and> key \<notin> set acc) (concat (map (map fst) rows)))"
proof (induction rows arbitrary: acc)
  case Nil
  then show ?case by simp
next
  case (Cons row rows)
  let ?P = "\<lambda>key. key \<noteq> idField \<and> key \<notin> set acc"
  let ?acc = "acc @ first_seen (filter ?P (map fst row))"
  have f: "filter (\<lambda>key. key \<noteq> idField \<and> key \<notin> set ?acc) (concat (map (map fst) rows)) =
        filter (\<lambda>y. y \<notin> set (filter ?P (map fst row))) (filter ?P (concat (map (map fst) rows)))"
    by (auto intro: filter_cong)
  have "collect_columns idField (map JObj (row # rows)) acc =
        collect_columns idField (map JObj rows) ?acc"
    by (simp add: for_in_def add_columns_eq)
  also have "\<dots> = ?acc @ first_seen (filter (\<lambda>key. key \<noteq> idField \<and> key \<notin> set ?acc) (concat (map (map fst) rows)))"
    by (rule Cons)
  also have "\<dots> = acc @ first_seen (filter ?P (map fst row) @ filter ?P (concat (map (map fst) rows)))"
    unfolding f by (simp add: first_seen_append)
  finally show ?case by simp
qed

lemma check_rows_plain:
  "check_rows idField (map JObj rows) = Inr u \<Longrightarrow> row \<in> set rows \<Longrightarrow>
   hasOwnProperty (JObj row) col = Inr (has_column row col) \<and> has_column row idField"
proof (induction rows)
  case Nil
  then show ?case by simp
next
  case (Cons r rows)
  from Cons.prems(1) have r: "''hasOwnProperty'' \<notin> set (map fst r)" "idField \<in> set (map fst r)"
    and rest: "check_rows idField (map JObj rows) = Inr u"
    by (auto simp: hasOwnProperty_def split: if_splits sum.splits)
  show ?case
  proof (cases "row = r")
    case True
    with r show ?thesis
      by (simp add: hasOwnProperty_def has_column_def)
  next
    case False
    with Cons.prems(2) have "row \<in> set rows" by simp
    with Cons.IH rest show ?thesis by blast
  qed
qed

lemma case_arms_eq:
  "\<forall>row \<in> set rows. hasOwnProperty (JObj row) col = Inr (has_column row col) \<Longrightarrow>
   case_arms col (map JObj rows) =
     Inr (map (\<lambda>row. if has_column row col then ''WHEN ? THEN ?'' else []) rows)"
  by (induction rows) auto

lemma filter_arms:
  "filter (\<lambda>x. x \<noteq> []) (map (\<lambda>row. if has_column row col then ''WHEN ? THEN ?'' else []) rows) =
   replicate (length (filter (\<lambda>row. has_column row col) rows)) ''WHEN ? THEN ?''"
  by (induction rows) auto

lemma set_clauses_eq:
  "\<forall>row \<in> set rows. \<forall>col. hasOwnProperty (JObj row) col = Inr (has_column row col) \<Longrightarrow>
   set_clauses idField cols (map JObj rows) = Inr (map (bulk_set_clause idField rows) cols)"
  by (induction cols) (simp_all add: case_arms_eq filter_arms bulk_set_clause_def)

lemma case_params_eq:
  "\<forall>row \<in> set rows. hasOwnProperty (JObj row) col = Inr (has_column row col) \<Longrightarrow>
   case_params idField col (map JObj rows) acc =
     Inr (acc @ concat (map (\<lambda>row. [PVal (own_get (JObj row) idField), PVal (own_get (JObj row) col)])
                          (filter (\<lambda>row. has_column row col) rows)))"
  by (induction rows arbitrary: acc) auto

lemma all_case_params_eq:
  "\<forall>row \<in> set rows. \<forall>col. hasOwnProperty (JObj row) col = Inr (has_column row col) \<Longrightarrow>
   all_case_params idField cols (map JObj rows) acc =
     Inr (acc @ concat (map (bulk_case_params idField rows) cols))"
  by (induction cols arbitrary: acc) (simp_all add: case_params_eq bulk_case_params_def)

lemma join_placeholders: "map (\<lambda>x. ''?'') xs = replicate (length xs) ''?''"
  by (induction xs) auto



lemma distinct_first_seen: "distinct (first_seen xs)"
  by (induction xs rule: first_seen.induct) auto


section \<open>Failures\<close>

text \<open>
  Every exception that leaves the loop of \<^verbatim>\<open>parseMongoQuery\<close> comes out of its
  \<^verbatim>\<open>catch\<close> block.
\<close>

lemma rethrow_Inl:
  "rethrow context r = Inl e \<Longrightarrow> \<exists>e0. r = Inl e0 \<and> e = new_Error QueryParseError (err_message e0) context"
  by (cases r) (auto simp: rethrow_def)

lemma for_in_entries_error:
  "for_in_entries pl kvs conditions params context = Inl e \<Longrightarrow>
   \<exists>m. e = new_Error QueryParseError m context"
proof (induction kvs arbitrary: conditions params)
  case Nil
  then show ?case by simp
next
  case (Cons kv kvs)
  obtain k v where kv: "kv = (k, v)" by (cases kv)
  show ?case
  proof (cases "rethrow context (parse_key pl k v conditions params context)")
    case (Inl e')
    with Cons.prems kv have "e = e'" by (simp del: parse_key.simps)
    with Inl rethrow_Inl show ?thesis by blast
  next
    case (Inr r)
    with Cons.prems kv Cons.IH show ?thesis
      by (cases r) (auto simp del: parse_key.simps)
  qed
qed

lemma for_in_elements_error:
  "for_in_elements pl i xs conditions params context = Inl e \<Longrightarrow>
   \<exists>m. e = new_Error QueryParseError m context"
proof (induction xs arbitrary: i conditions params)
  case Nil
  then show ?case by simp
next
  case (Cons v xs)
  show ?case
  proof (cases "rethrow context (parse_key pl (show_nat i) v conditions params context)")
    case (Inl e')
    with Cons.prems have "e = e'" by (simp del: parse_key.simps)
    with Inl rethrow_Inl show ?thesis by blast
  next
    case (Inr r)
    with Cons.prems Cons.IH show ?thesis
      by (cases r) (auto simp del: parse_key.simps)
  qed
qed

lemma parseMongoQuery_error:
  "parseMongoQuery pl query params context = Inl e \<Longrightarrow>
   \<exists>m. e = new_Error QueryParseError m context"
  by (cases query)
     (auto split: sum.splits prod.splits dest: for_in_entries_error for_in_elements_error)

lemma logical_child_error:
  assumes "parseMongoQuery pl subQuery params (context @ ''->'' @ label @ ''[0]'') = Inl e"
  shows "map_parseMongoQuery pl (subQuery # rest) params context label 0 = Inl e"
  using assms by (simp add: show_nat_0 del: parseMongoQuery.simps)





section \<open>Implicit equality inside an operator object\<close>

text \<open>
  A loop over an operator object whose keys all lack the \<^verbatim>\<open>$\<close> sigil pushes one
  condition \<^verbatim>\<open>field = ?\<close> and one parameter per key.
\<close>

lemma for_in_operators_plain:
  "\<forall>k \<in> set (map fst ops). \<not> startsWith_dollar k \<Longrightarrow>
   for_in_operators pl key ops fieldConds params context =
     Inr (fieldConds @ replicate (length ops) (key @ '' = ?''), params @ map (\<lambda>(k, v). PVal v) ops)"
proof (induction ops arbitrary: fieldConds params)
  case Nil
  then show ?case by simp
next
  case (Cons kv ops)
  obtain k v where kv: "kv = (k, v)" by (cases kv)
  from Cons.prems kv have k: "\<not> startsWith_dollar k" and rest: "\<forall>k \<in> set (map fst ops). \<not> startsWith_dollar k"
    by auto
  show ?case
    using Cons.IH [OF rest] k
    by (simp add: kv push_equality_def replicate_app_Cons_same)
qed



section \<open>Placeholders and parameters\<close>

text \<open>
  From here on the equations of the translator are unfolded only where a proof names
  them.
\<close>

declare parseMongoQuery.simps [simp del] for_in_query.simps [simp del]
  for_in_entries.simps [simp del] for_in_elements.simps [simp del] parse_key.simps [simp del]
  map_parseMongoQuery.simps [simp del] for_in_operators.simps [simp del]
  handleLogicalOperators.simps [simp del] handleArrayOperators.simps [simp del]
  map_subqueries.simps [simp del] handleOperator.simps [simp del] push_subquery.simps [simp del]
  SubQuery_toSQL.simps [simp del] SubQuery_getParams.simps [simp del]
  MongoQueryBuilder_toSQL.simps [simp del]

subsection \<open>Counting placeholders\<close>

lemma placeholders_append [simp]: "placeholders (a @ b) = placeholders a + placeholders b"
  by (simp add: placeholders_def)

lemma placeholders_Nil [simp]: "placeholders [] = 0"
  by (simp add: placeholders_def)

lemma placeholders_Cons [simp]:
  "placeholders (c # cs) = (if c = CHR ''?'' then Suc (placeholders cs) else placeholders cs)"
  by (simp add: placeholders_def)

lemma placeholders_join:
  "placeholders sep = 0 \<Longrightarrow> placeholders (join_str sep xs) = sum_list (map placeholders xs)"
  by (induction sep xs rule: join_str.induct) simp_all

lemma show_nat_digits:
  "c \<in> set (show_nat n) \<Longrightarrow> 48 \<le> (of_char c :: nat) \<and> (of_char c :: nat) \<le> 57"
proof (induction n arbitrary: c rule: show_nat.induct)
  case (1 n)
  show ?case
  proof (cases "n < 10")
    case True
    with "1.prems" have "c = char_of (48 + n)"
      by (simp add: show_nat.simps [of n])
    with True show ?thesis by simp
  next
    case False
    with "1.prems" have "c \<in> set (show_nat (n div 10)) \<or> c = char_of (48 + n mod 10)"
      by (auto simp: show_nat.simps [of n])
    then show ?thesis
    proof
      assume "c \<in> set (show_nat (n div 10))"
      with "1.IH" False show ?thesis by simp
    next
      assume c: "c = char_of (48 + n mod 10)"
      have "n mod 10 < 10" by simp
      then have "(48 + n mod 10) mod 256 = 48 + n mod 10" by simp
      with c show ?thesis by simp
    qed
  qed
qed

lemma placeholders_show_nat [simp]: "placeholders (show_nat n) = 0"
proof -
  have "CHR ''?'' \<notin> set (show_nat n)"
    using show_nat_digits [of "CHR ''?''" n] by auto
  then show ?thesis
    by (auto simp: placeholders_def filter_empty_conv)
qed

lemma show_nat_no_dollar [simp]: "\<not> startsWith_dollar (show_nat n)"
proof -
  have "CHR ''$'' \<notin> set (show_nat n)"
    using show_nat_digits [of "CHR ''$''" n] by auto
  then show ?thesis
    by (cases "show_nat n") (auto simp: startsWith_dollar_def)
qed

lemma OPERATORS_MYSQL_placeholders:
  "OPERATORS_MYSQL op = Some s \<Longrightarrow> placeholders s = 0"
  by (auto simp: OPERATORS_MYSQL_def split: if_splits)

lemma aligned_Nil [simp]: "aligned [] []"
  by (simp add: aligned_def)

lemma aligned_append: "aligned c1 p1 \<Longrightarrow> aligned c2 p2 \<Longrightarrow> aligned (c1 @ c2) (p1 @ p2)"
  by (simp add: aligned_def)

subsection \<open>Every step appends aligned conditions and parameters\<close>

lemma extends_refl [simp]: "extends cs ps (cs, ps)"
  by (auto simp: extends_def intro: exI [of _ "[]"])

lemma extends_push:
  "aligned c p \<Longrightarrow> extends cs ps (cs @ c, ps @ p)"
  by (auto simp: extends_def)

lemma extends_push_conds:
  "aligned c [] \<Longrightarrow> extends cs ps (cs @ c, ps)"
  using extends_push [of c "[]" cs ps] by simp

lemma extends_trans:
  "extends cs ps (cs1, ps1) \<Longrightarrow> extends cs1 ps1 r \<Longrightarrow> extends cs ps r"
  by (auto simp: extends_def aligned_def)

lemma push_subquery_extends:
  assumes "aligned_subquery sq" and "placeholders field = 0"
    and "push_subquery [] sq field cs ps = Inr r"
  shows "extends cs ps r"
proof -
  from assms(3) obtain s sp where s: "fst (SubQuery_toSQL [] sq) = Inr s"
    and sp: "fst (SubQuery_getParams [] sq) = Inr sp"
    and r: "r = (cs @ [field @ '' IN '' @ s], ps @ sp)"
    by (auto simp: push_subquery.simps split: prod.splits sum.splits)
  from assms(1) s sp have "placeholders s = length sp"
    by (simp add: aligned_subquery_def)
  with assms(2) have "aligned [field @ '' IN '' @ s] sp"
    by (simp add: aligned_def)
  with r show ?thesis
    by (simp add: extends_push)
qed

lemma map_subqueries_aligned:
  "list_all sound_element vs \<Longrightarrow> map_subqueries [] vs ps = Inr (items, ps') \<Longrightarrow>
   \<exists>p. ps' = ps @ p \<and> aligned items p"
proof (induction vs arbitrary: ps items ps')
  case Nil
  then show ?case by (simp add: map_subqueries.simps)
next
  case (Cons v vs)
  show ?case
  proof (cases "as_SubQuery v")
    case None
    with Cons.prems(2) obtain items' where rest: "map_subqueries [] vs (ps @ [PVal v]) = Inr (items', ps')"
      and items: "items = ''?'' # items'"
      by (auto simp: map_subqueries.simps split: sum.splits)
    from Cons.IH [OF _ rest] Cons.prems(1) obtain p where "ps' = (ps @ [PVal v]) @ p" "aligned items' p"
      by auto
    with items show ?thesis
      by (auto simp: aligned_def)
  next
    case (Some sq)
    then have v: "v = JSub sq"
      by (cases v) (auto simp: as_SubQuery_def)
    with Cons.prems(1) have al: "aligned_subquery sq"
      by (simp add: sound_element_def)
    from Cons.prems(2) Some obtain sp s items' where sp: "fst (SubQuery_getParams [] sq) = Inr sp"
      and s: "fst (SubQuery_toSQL [] sq) = Inr s"
      and rest: "map_subqueries [] vs (ps @ sp) = Inr (items', ps')"
      and items: "items = s # items'"
      by (auto simp: map_subqueries.simps split: sum.splits prod.splits)
    from al s sp have c: "placeholders s = length sp"
      by (simp add: aligned_subquery_def)
    from Cons.IH [OF _ rest] Cons.prems(1) obtain p where "ps' = (ps @ sp) @ p" "aligned items' p"
      by auto
    with items c show ?thesis
      by (auto simp: aligned_def)
  qed
qed

lemma sum_placeholders_const:
  "sum_list (map placeholders (map (\<lambda>v. s) xs)) = length xs * placeholders s"
  by (induction xs) simp_all

lemma sum_placeholders_const':
  "sum_list (map (placeholders \<circ> (\<lambda>v. s)) xs) = length xs * placeholders s"
  by (induction xs) simp_all

lemma handleArrayOperators_extends:
  assumes "placeholders field = 0" and "sound_operand v"
    and "handleArrayOperators [] field v operator cs ps context = Inr r"
  shows "extends cs ps r"
proof (cases "\<exists>x xs. v = JArr (x # xs)")
  case False
  then have "r = (empty_array_operator operator cs, ps)"
    using assms(3)
    by (cases v) (auto simp: handleArrayOperators.simps split: list.splits)
  then show ?thesis
    by (auto simp: empty_array_operator_def extends_def aligned_def intro: exI [of _ "[]"])
next
  case True
  then obtain x xs where v: "v = JArr (x # xs)" by blast
  show ?thesis
  proof (cases "list_ex is_SubQuery (x # xs)")
    case True
    with assms(3) v obtain items ps' where m: "map_subqueries [] (x # xs) ps = Inr (items, ps')"
      and r: "r = (cs @ [field @ '' IN ('' @ join_str '', '' items @ '')''], ps')"
      by (auto simp: handleArrayOperators.simps split: sum.splits)
    from assms(2) v have "list_all sound_element (x # xs)"
      by (simp add: sound_operand_def)
    from map_subqueries_aligned [OF this m] obtain p where p: "ps' = ps @ p" "aligned items p"
      by blast
    have "placeholders (join_str '', '' items) = sum_list (map placeholders items)"
      by (rule placeholders_join) simp
    with p assms(1) have "aligned [field @ '' IN ('' @ join_str '', '' items @ '')''] p"
      by (simp add: aligned_def)
    with r p show ?thesis
      by (simp add: extends_push)
  next
    case False
    have j: "placeholders (join_str '', '' (map (\<lambda>v. ''?'') (x # xs))) = length (x # xs)"
      by (subst placeholders_join) (simp_all add: sum_placeholders_const sum_placeholders_const' del: map_eq_conv)
    have k: "placeholders (join_str '' AND '' (map (\<lambda>v. ''JSON_CONTAINS('' @ field @ '', ?)'') (x # xs))) =
             length (x # xs)"
      using assms(1)
      by (subst placeholders_join) (simp_all add: sum_placeholders_const sum_placeholders_const' del: map_eq_conv)
    from False assms(3) v consider
        "r = (cs @ [field @ '' IN ('' @ join_str '', '' (map (\<lambda>v. ''?'') (x # xs)) @ '')''],
              ps @ map PVal (x # xs))"
      | "r = (cs @ [field @ '' NOT IN ('' @ join_str '', '' (map (\<lambda>v. ''?'') (x # xs)) @ '')''],
              ps @ map PVal (x # xs))"
      | "r = (cs @ [''('' @ join_str '' AND ''
                       (map (\<lambda>v. ''JSON_CONTAINS('' @ field @ '', ?)'') (x # xs)) @ '')''],
              ps @ map PJson (x # xs))"
      | "r = (cs, ps)"
      by (auto simp: handleArrayOperators.simps split: if_splits simp del: list.map)
    then show ?thesis
    proof cases
      case 1
      with j assms(1) show ?thesis
        by (auto simp: aligned_def intro!: extends_push)
    next
      case 2
      with j assms(1) show ?thesis
        by (auto simp: aligned_def intro!: extends_push)
    next
      case 3
      with k show ?thesis
        by (auto simp: aligned_def intro!: extends_push)
    next
      case 4
      then show ?thesis by simp
    qed
  qed
qed

lemma handleOperator_extends:
  assumes "placeholders field = 0" and "sound_operand v"
    and "handleOperator [] field v operator cs ps context = Inr r"
  shows "extends cs ps r"
proof (cases "as_SubQuery v")
  case (Some sq)
  then have v: "v = JSub sq"
    by (cases v) (auto simp: as_SubQuery_def)
  with assms(2) have a: "aligned_subquery sq"
    by (simp add: sound_operand_def)
  from assms(3) v have "push_subquery [] sq field cs ps = Inr r"
    by (simp add: handleOperator.simps)
  with a assms(1) show ?thesis
    by (rule push_subquery_extends)
next
  case None
  then have nv: "\<And>sq. v \<noteq> JSub sq"
    by (auto simp: as_SubQuery_def)
  from assms(3) nv consider
      "r = (cs @ [field @ '' '' @ (if truthy v then ''IS NOT NULL'' else ''IS NULL'')], ps)"
    | "r = (cs @ [''JSON_LENGTH('' @ field @ '') = ?''], ps @ [PVal v])"
    | "r = (cs @ [''JSON_CONTAINS('' @ field @ '', ?)''], ps @ [PJson v])"
    | "r = (cs @ [field @ '' REGEXP ?''], ps @ [PVal v])"
    | "r = (cs @ [field @ '' LIKE ?''], ps @ [PVal v])"
    | s where "OPERATORS_MYSQL operator = Some s" "r = (cs @ [field @ '' '' @ s @ '' ?''], ps @ [PVal v])"
    by (cases v) (auto simp: handleOperator.simps split: if_splits option.splits)
  then show ?thesis
    using assms(1)
    by cases (auto simp: aligned_def OPERATORS_MYSQL_placeholders intro!: extends_push extends_push_conds)
qed

lemma for_in_operators_extends:
  "placeholders key = 0 \<Longrightarrow> sound_operators ops \<Longrightarrow>
   for_in_operators [] key ops cs ps context = Inr r \<Longrightarrow> extends cs ps r"
proof (induction ops arbitrary: cs ps)
  case Nil
  then show ?case by (auto simp: for_in_operators.simps)
next
  case (Cons kv ops)
  obtain op v where kv: "kv = (op, v)" by (cases kv)
  from Cons.prems(2) kv have sv: "sound_operand v" and so: "sound_operators ops"
    by (simp_all add: sound_operators_def)
  let ?step = "if startsWith_dollar op then
           (case (if op = ''$in'' then as_SubQuery v else None) of
              Some sq \<Rightarrow> push_subquery [] sq key cs ps
            | None \<Rightarrow>
              if op \<in> set [''$in'', ''$nin'', ''$all'']
              then handleArrayOperators [] key v op cs ps context
              else handleOperator [] key v op cs ps context)
         else Inr (push_equality key v cs ps)"
  from Cons.prems(3) kv obtain cs1 ps1 where step: "?step = Inr (cs1, ps1)"
    and rest: "for_in_operators [] key ops cs1 ps1 context = Inr r"
    by (auto simp: for_in_operators.simps split: sum.splits)
  have "extends cs ps (cs1, ps1)"
  proof (cases "startsWith_dollar op")
    case False
    with step have "(cs1, ps1) = push_equality key v cs ps" by simp
    then show ?thesis
      using Cons.prems(1) by (auto simp: push_equality_def aligned_def intro!: extends_push)
  next
    case True
    show ?thesis
    proof (cases "if op = ''$in'' then as_SubQuery v else None")
      case (Some sq)
      then have "v = JSub sq"
        by (cases v) (auto simp: as_SubQuery_def split: if_splits)
      with sv have a: "aligned_subquery sq" by (simp add: sound_operand_def)
      from step True Some have "push_subquery [] sq key cs ps = Inr (cs1, ps1)" by simp
      with a Cons.prems(1) show ?thesis
        by (rule push_subquery_extends)
    next
      case None
      with step True have "handleArrayOperators [] key v op cs ps context = Inr (cs1, ps1) \<or>
                           handleOperator [] key v op cs ps context = Inr (cs1, ps1)"
        by (auto split: if_splits)
      then show ?thesis
        using handleArrayOperators_extends [OF Cons.prems(1) sv]
          handleOperator_extends [OF Cons.prems(1) sv] by blast
    qed
  qed
  moreover from Cons.IH [OF Cons.prems(1) so rest] have "extends cs1 ps1 r" .
  ultimately show ?case by (rule extends_trans)
qed

lemma sound_entry_field:
  "\<not> startsWith_dollar key \<Longrightarrow> sound_entry key v = (placeholders key = 0 \<and> sound_field v)"
  by (cases v) (simp_all add: sound_field_def)

lemma sound_entry_logical:
  "startsWith_dollar key \<Longrightarrow>
   sound_entry key v = (placeholders key = 0 \<and> (case v of JArr xs \<Rightarrow> sound_filters xs | _ \<Rightarrow> True))"
  by (cases v) simp_all

lemma rethrow_Inr [simp]: "rethrow context x = Inr y \<longleftrightarrow> x = Inr y"
  by (cases x) (simp_all add: rethrow_def)

lemma sum_placeholders_filter:
  "\<forall>c \<in> set conds. \<not> P c \<longrightarrow> placeholders c = 0 \<Longrightarrow>
   sum_list (map placeholders (filter P conds)) = sum_list (map placeholders conds)"
  by (induction conds) auto

lemma aligned_filter_empty:
  assumes "filter P conds = []" and "\<forall>c \<in> set conds. \<not> P c \<longrightarrow> placeholders c = 0"
    and "aligned conds p"
  shows "p = []"
proof -
  from assms(1,2) have "\<forall>c \<in> set conds. placeholders c = 0"
    by (auto simp: filter_empty_conv)
  then have "sum_list (map placeholders conds) = 0"
    by simp
  with assms(3) show ?thesis
    by (simp add: aligned_def)
qed

lemma sum_placeholders_parens:
  "sum_list (map placeholders (map (\<lambda>c. ''('' @ c @ '')'') conds)) = sum_list (map placeholders conds)"
  by (induction conds) auto

lemma parse_from_query_ok:
  assumes "query_ok v" and "parseMongoQuery [] v ps context = Inr (t, ps')"
  shows "\<exists>new. ps' = ps @ new \<and> placeholders t = length new"
proof -
  from assms(2) obtain conds where f: "for_in_query [] v [] ps context = Inr (conds, ps')"
    and t: "t = (if conds \<noteq> [] then join_str '' AND '' conds else ''1=1'')"
    by (auto simp: parseMongoQuery.simps split: sum.splits)
  from assms(1) f have "extends [] ps (conds, ps')"
    by (auto simp: query_ok_def)
  then obtain p where p: "ps' = ps @ p" "aligned conds p"
    by (auto simp: extends_def)
  have "placeholders (join_str '' AND '' conds) = sum_list (map placeholders conds)"
    by (rule placeholders_join) simp
  with p t have "placeholders t = length p"
    by (auto simp: aligned_def)
  with p show ?thesis by blast
qed

lemma map_parse_aligned:
  "\<forall>x \<in> set xs. sound_filter x \<longrightarrow> query_ok x \<Longrightarrow> sound_filters xs \<Longrightarrow>
   map_parseMongoQuery [] xs ps context label idx = Inr (conds, ps') \<Longrightarrow>
   \<exists>p. ps' = ps @ p \<and> aligned conds p"
proof (induction xs arbitrary: ps idx conds ps')
  case Nil
  then show ?case by (simp add: map_parseMongoQuery.simps)
next
  case (Cons x xs)
  from Cons.prems(3) obtain c ps1 cs' where
      1: "parseMongoQuery [] x ps (context @ ''->'' @ label @ ''['' @ show_nat idx @ '']'') = Inr (c, ps1)"
    and 2: "map_parseMongoQuery [] xs ps1 context label (Suc idx) = Inr (cs', ps')"
    and 3: "conds = c # cs'"
    by (auto simp: map_parseMongoQuery.simps split: sum.splits)
  from Cons.prems(1,2) have "query_ok x" by simp
  from parse_from_query_ok [OF this 1] obtain n where n: "ps1 = ps @ n" "placeholders c = length n"
    by blast
  from Cons.IH [OF _ _ 2] Cons.prems(1,2) obtain p where p: "ps' = ps1 @ p" "aligned cs' p"
    by auto
  from n p 3 show ?case
    by (auto simp: aligned_def)
qed

lemma logical_entry_extends:
  assumes ok: "\<forall>x \<in> set xs. sound_filter x \<longrightarrow> query_ok x"
    and key: "startsWith_dollar key" "placeholders key = 0"
    and xs: "sound_filters xs"
    and r: "parse_key [] key (JArr xs) cs ps context = Inr r"
  shows "extends cs ps r"
proof -
  have m: "\<And>label conds ps'. map_parseMongoQuery [] xs ps context label 0 = Inr (conds, ps') \<Longrightarrow>
      \<exists>p. ps' = ps @ p \<and> aligned conds p"
    using map_parse_aligned [OF ok xs] by blast
  have f: "\<And>conds. sum_list (map placeholders (filter (\<lambda>cond. cond \<noteq> [] \<and> cond \<noteq> ''1=1'') conds)) =
      sum_list (map placeholders conds)"
    by (rule sum_placeholders_filter) auto
  have g: "\<And>conds. sum_list (map placeholders (filter (\<lambda>cond. cond \<noteq> []) conds)) =
      sum_list (map placeholders conds)"
    by (rule sum_placeholders_filter) auto
  have j: "\<And>conds. placeholders (join_str '' OR '' conds) = sum_list (map placeholders conds)"
    by (rule placeholders_join) simp
  have j': "\<And>conds. placeholders (join_str '' AND '' conds) = sum_list (map placeholders conds)"
    by (rule placeholders_join) simp
  consider (c_or) "key = ''$or''" | (c_nor) "key = ''$nor''" | (c_and) "key = ''$and''"
    | (c_other) "key \<noteq> ''$or''" "key \<noteq> ''$nor''" "key \<noteq> ''$and''"
    by blast
  then show ?thesis
  proof cases
    case c_or
    with r key(1) obtain conds ps' where mp: "map_parseMongoQuery [] xs ps context ''OR'' 0 = Inr (conds, ps')"
      and r': "r = (if filter (\<lambda>cond. cond \<noteq> [] \<and> cond \<noteq> ''1=1'') conds \<noteq> []
                   then cs @ [''('' @ join_str '' OR '' (filter (\<lambda>cond. cond \<noteq> [] \<and> cond \<noteq> ''1=1'') conds) @ '')'']
                   else cs @ [''1=0''], ps')"
      by (auto simp: parse_key.simps Let_def split: sum.splits if_splits)
    from m [OF mp] obtain p where p: "ps' = ps @ p" "aligned conds p" by blast
    show ?thesis
    proof (cases "filter (\<lambda>cond. cond \<noteq> [] \<and> cond \<noteq> ''1=1'') conds = []")
      case True
      from aligned_filter_empty [OF True _ p(2)] have "p = []" by auto
      with r' True p show ?thesis
        by (auto simp: aligned_def intro!: extends_push_conds)
    next
      case False
      with r' p f [of conds] j show ?thesis
        by (auto simp: aligned_def intro!: extends_push)
    qed
  next
    case c_nor
    with r key(1) obtain conds ps' where mp: "map_parseMongoQuery [] xs ps context ''NOR'' 0 = Inr (conds, ps')"
      and r': "r = (if filter (\<lambda>cond. cond \<noteq> [] \<and> cond \<noteq> ''1=1'') conds \<noteq> []
                   then cs @ [''NOT ('' @ join_str '' OR '' (filter (\<lambda>cond. cond \<noteq> [] \<and> cond \<noteq> ''1=1'') conds) @ '')'']
                   else cs @ [''1=1''], ps')"
      by (auto simp: parse_key.simps Let_def split: sum.splits if_splits)
    from m [OF mp] obtain p where p: "ps' = ps @ p" "aligned conds p" by blast
    show ?thesis
    proof (cases "filter (\<lambda>cond. cond \<noteq> [] \<and> cond \<noteq> ''1=1'') conds = []")
      case True
      from aligned_filter_empty [OF True _ p(2)] have "p = []" by auto
      with r' True p show ?thesis
        by (auto simp: aligned_def intro!: extends_push_conds)
    next
      case False
      with r' p f [of conds] j show ?thesis
        by (auto simp: aligned_def intro!: extends_push)
    qed
  next
    case c_and
    with r key(1) obtain conds ps' where mp: "map_parseMongoQuery [] xs ps context ''AND'' 0 = Inr (conds, ps')"
      and r': "r = (if filter (\<lambda>cond. cond \<noteq> []) conds \<noteq> []
                   then cs @ [join_str '' AND '' (filter (\<lambda>cond. cond \<noteq> []) conds)]
                   else cs, ps')"
      by (auto simp: parse_key.simps Let_def split: sum.splits if_splits)
    from m [OF mp] obtain p where p: "ps' = ps @ p" "aligned conds p" by blast
    show ?thesis
    proof (cases "filter (\<lambda>cond. cond \<noteq> []) conds = []")
      case True
      from aligned_filter_empty [OF True _ p(2)] have "p = []" by auto
      with r' True p show ?thesis by simp
    next
      case False
      with r' p g [of conds] j' show ?thesis
        by (auto simp: aligned_def intro!: extends_push)
    qed
  next
    case c_other
    with r key have h: "handleLogicalOperators [] key (JArr xs) cs ps context = Inr r"
      by (simp add: parse_key.simps)
    show ?thesis
    proof (cases xs)
      case Nil
      with h show ?thesis
        by (auto simp: handleLogicalOperators.simps aligned_def intro!: extends_push_conds)
    next
      case (Cons y ys)
      let ?sep = "'' '' @ (case OPERATORS_MYSQL key of Some sqlOperator \<Rightarrow> sqlOperator | None \<Rightarrow> key) @ '' ''"
      have sep: "placeholders ?sep = 0"
        using key(2) by (auto simp: OPERATORS_MYSQL_placeholders split: option.splits)
      from h Cons c_other obtain conds ps' where mp: "map_parseMongoQuery [] xs ps context key 0 = Inr (conds, ps')"
        and r': "r = (cs @ [''('' @ join_str ?sep (map (\<lambda>c. ''('' @ c @ '')'') conds) @ '')''], ps')"
        by (auto simp: handleLogicalOperators.simps Let_def split: sum.splits)
      from m [OF mp] obtain p where p: "ps' = ps @ p" "aligned conds p" by blast
      have "placeholders (join_str ?sep (map (\<lambda>c. ''('' @ c @ '')'') conds)) =
            sum_list (map placeholders conds)"
        using placeholders_join [OF sep] sum_placeholders_parens by simp
      with r' p show ?thesis
        by (auto simp: aligned_def intro!: extends_push)
    qed
  qed
qed

lemma logical_entry_not_array:
  assumes "startsWith_dollar key" "\<And>xs. v \<noteq> JArr xs"
    and "parse_key [] key v cs ps context = Inr r"
  shows "extends cs ps r"
  using assms
  by (cases v)
     (auto simp: parse_key.simps handleLogicalOperators.simps aligned_def
        split: if_splits intro!: extends_push_conds)

lemma push_equality_extends:
  "placeholders key = 0 \<Longrightarrow> extends cs ps (push_equality key v cs ps)"
  by (auto simp: push_equality_def aligned_def intro!: extends_push)

lemma push_field_conditions_extends:
  assumes "extends [] ps (fieldConds, ps')"
  shows "extends cs ps (push_field_conditions fieldConds cs, ps')"
proof -
  from assms obtain p where p: "ps' = ps @ p" "aligned fieldConds p"
    by (auto simp: extends_def)
  have j: "placeholders (join_str '' AND '' fieldConds) = sum_list (map placeholders fieldConds)"
    by (rule placeholders_join) simp
  show ?thesis
  proof (cases fieldConds)
    case Nil
    with p show ?thesis
      by (simp add: push_field_conditions_def aligned_def)
  next
    case (Cons c ds)
    note c = Cons
    show ?thesis
    proof (cases ds)
      case Nil
      with c p show ?thesis
        by (auto simp: push_field_conditions_def aligned_def intro!: extends_push)
    next
      case (Cons d es)
      have "push_field_conditions fieldConds cs = cs @ [''('' @ join_str '' AND '' fieldConds @ '')'']"
        by (simp add: push_field_conditions_def c Cons)
      moreover have "aligned [''('' @ join_str '' AND '' fieldConds @ '')''] p"
        using p(2) j by (simp add: aligned_def)
      ultimately show ?thesis
        using p(1) by (simp add: extends_push)
    qed
  qed
qed

lemma field_entry_extends:
  assumes "\<not> startsWith_dollar key" and "placeholders key = 0" and "sound_field v"
    and "parse_key [] key v cs ps context = Inr r"
  shows "extends cs ps r"
proof (cases v)
  case (JSub sq)
  with assms(3) have a: "aligned_subquery sq" by (simp add: sound_field_def)
  from assms(1,4) JSub have "push_subquery [] sq key cs ps = Inr r"
    by (simp add: parse_key.simps)
  with a assms(2) show ?thesis by (rule push_subquery_extends)
next
  case (JObj ops)
  with assms(3) have so: "sound_operators ops" by (simp add: sound_field_def)
  from assms(1,4) JObj obtain fc ps' where f: "for_in_operators [] key ops [] ps context = Inr (fc, ps')"
    and r: "r = (push_field_conditions fc cs, ps')"
    by (auto simp: parse_key.simps split: sum.splits)
  from for_in_operators_extends [OF assms(2) so f] r show ?thesis
    by (simp add: push_field_conditions_extends)
qed (use assms in \<open>auto simp: parse_key.simps push_equality_extends\<close>)

lemma for_in_entries_extends:
  "\<forall>kv \<in> set kvs. entry_ok (snd kv) \<Longrightarrow> sound_entries kvs \<Longrightarrow>
   for_in_entries [] kvs cs ps context = Inr r \<Longrightarrow> extends cs ps r"
proof (induction kvs arbitrary: cs ps)
  case Nil
  then show ?case by (auto simp: for_in_entries.simps)
next
  case (Cons kv kvs)
  obtain key v where kv: "kv = (key, v)" by (cases kv)
  from Cons.prems(3) kv obtain cs1 ps1 where 1: "parse_key [] key v cs ps context = Inr (cs1, ps1)"
    and 2: "for_in_entries [] kvs cs1 ps1 context = Inr r"
    by (auto simp: for_in_entries.simps split: sum.splits)
  from Cons.prems(1,2) kv 1 have "extends cs ps (cs1, ps1)"
    by (auto simp: entry_ok_def)
  moreover from Cons.IH [OF _ _ 2] Cons.prems(1,2) kv have "extends cs1 ps1 r"
    by simp
  ultimately show ?case by (rule extends_trans)
qed

lemma for_in_elements_extends:
  "\<forall>x \<in> set xs. entry_ok x \<Longrightarrow> list_all sound_field xs \<Longrightarrow>
   for_in_elements [] i xs cs ps context = Inr r \<Longrightarrow> extends cs ps r"
proof (induction xs arbitrary: i cs ps)
  case Nil
  then show ?case by (auto simp: for_in_elements.simps)
next
  case (Cons x xs)
  from Cons.prems(3) obtain cs1 ps1 where 1: "parse_key [] (show_nat i) x cs ps context = Inr (cs1, ps1)"
    and 2: "for_in_elements [] (Suc i) xs cs1 ps1 context = Inr r"
    by (auto simp: for_in_elements.simps split: sum.splits)
  from Cons.prems(2) have "sound_entry (show_nat i) x"
    by (simp add: sound_entry_field)
  with Cons.prems(1) 1 have "extends cs ps (cs1, ps1)"
    by (auto simp: entry_ok_def)
  moreover from Cons.IH [OF _ _ 2] Cons.prems(1,2) have "extends cs1 ps1 r"
    by simp
  ultimately show ?case by (rule extends_trans)
qed

lemma foldl_push_equality_extends:
  "extends cs ps
     (foldl (\<lambda>(cs, ps) (i, c). push_equality (show_nat i) (JStr [c]) cs ps) (cs, ps) zs)"
proof (induction zs arbitrary: cs ps)
  case Nil
  then show ?case by simp
next
  case (Cons z zs)
  obtain i c where z: "z = (i, c)" by (cases z)
  obtain cs1 ps1 where 1: "push_equality (show_nat i) (JStr [c]) cs ps = (cs1, ps1)"
    by (cases "push_equality (show_nat i) (JStr [c]) cs ps")
  have "extends cs ps (cs1, ps1)"
    using push_equality_extends [of "show_nat i" cs ps "JStr [c]"] 1 by simp
  moreover have "extends cs1 ps1
     (foldl (\<lambda>(cs, ps) (i, c). push_equality (show_nat i) (JStr [c]) cs ps) (cs1, ps1) zs)"
    by (rule Cons.IH)
  ultimately show ?case
    using z 1 by (auto intro: extends_trans)
qed

lemma foldl_queryBuilder_extends:
  "extends cs ps
     (foldl (\<lambda>(cs, ps) (op, v). push_equality ''queryBuilder'' v cs ps) (cs, ps) zs)"
proof (induction zs arbitrary: cs ps)
  case Nil
  then show ?case by simp
next
  case (Cons z zs)
  obtain op v where z: "z = (op, v)" by (cases z)
  obtain cs1 ps1 where 1: "push_equality ''queryBuilder'' v cs ps = (cs1, ps1)"
    by (cases "push_equality ''queryBuilder'' v cs ps")
  have "extends cs ps (cs1, ps1)"
    using push_equality_extends [of "''queryBuilder''" cs ps v] 1 by simp
  moreover have "extends cs1 ps1
     (foldl (\<lambda>(cs, ps) (op, v). push_equality ''queryBuilder'' v cs ps) (cs1, ps1) zs)"
    by (rule Cons.IH)
  ultimately show ?case
    using z 1 by (auto intro: extends_trans)
qed

lemma for_in_instance_extends: "extends cs ps (for_in_instance sq cs ps)"
proof -
  obtain fc ps1 where f: "foldl (\<lambda>(cs, ps) (op, v). push_equality ''queryBuilder'' v cs ps)
              ([], ps) (builder_props (queryBuilder sq)) = (fc, ps1)"
    by (cases "foldl (\<lambda>(cs, ps) (op, v). push_equality ''queryBuilder'' v cs ps)
              ([], ps) (builder_props (queryBuilder sq))")
  have "extends [] ps (fc, ps1)"
    using foldl_queryBuilder_extends [of "[]" ps "builder_props (queryBuilder sq)"] f by simp
  then have 1: "extends cs ps (push_field_conditions fc cs, ps1)"
    by (rule push_field_conditions_extends)
  have 2: "extends (push_field_conditions fc cs) ps1
      (push_equality ''cachedSQL'' (case cachedSQL sq of None \<Rightarrow> JNull | Some s \<Rightarrow> JStr s)
         (push_field_conditions fc cs) ps1)"
    by (rule push_equality_extends) simp
  from extends_trans [OF 1 2] f show ?thesis
    by (simp add: for_in_instance_def)
qed

lemma translator_invariant: "(sound_filter v \<longrightarrow> query_ok v) \<and> entry_ok v"
proof (induction v rule: jsval.induct [where ?P2.0 = "\<lambda>sq. True" and ?P3.0 = "\<lambda>b. True"])
  case (JArr xs)
  have e: "entry_ok (JArr xs)"
    unfolding entry_ok_def
  proof (intro allI impI)
    fix key cs ps "context" r
    assume s: "sound_entry key (JArr xs)" and r: "parse_key [] key (JArr xs) cs ps context = Inr r"
    show "extends cs ps r"
    proof (cases "startsWith_dollar key")
      case True
      with s have "placeholders key = 0" "sound_filters xs" by simp_all
      with JArr True r show ?thesis
        by (intro logical_entry_extends [of xs key cs ps "context" r]) auto
    next
      case False
      with s r show ?thesis
        by (intro field_entry_extends [of key "JArr xs" cs ps "context" r]) (auto simp: sound_field_def)
    qed
  qed
  have q: "query_ok (JArr xs)" if "sound_filter (JArr xs)"
    unfolding query_ok_def for_in_query.simps
    using for_in_elements_extends [of xs] JArr that by auto
  from e q show ?case by blast
next
  case (JObj kvs)
  have e: "entry_ok (JObj kvs)"
    unfolding entry_ok_def
  proof (intro allI impI)
    fix key cs ps "context" r
    assume s: "sound_entry key (JObj kvs)" and r: "parse_key [] key (JObj kvs) cs ps context = Inr r"
    show "extends cs ps r"
    proof (cases "startsWith_dollar key")
      case True
      with r show ?thesis
        by (intro logical_entry_not_array [of key "JObj kvs" cs ps "context" r]) auto
    next
      case False
      with s r show ?thesis
        by (intro field_entry_extends [of key "JObj kvs" cs ps "context" r]) auto
    qed
  qed
  have "\<forall>kv \<in> set kvs. entry_ok (snd kv)"
    using JObj by (auto simp: snds.simps)
  then have q: "query_ok (JObj kvs)" if "sound_filter (JObj kvs)"
    unfolding query_ok_def for_in_query.simps
    using for_in_entries_extends [of kvs] that by auto
  from e q show ?case by blast
next
  case (JSub sq)
  have e: "entry_ok (JSub sq)"
    unfolding entry_ok_def
  proof (intro allI impI)
    fix key cs ps "context" r
    assume s: "sound_entry key (JSub sq)" and r: "parse_key [] key (JSub sq) cs ps context = Inr r"
    show "extends cs ps r"
    proof (cases "startsWith_dollar key")
      case True
      with r show ?thesis
        by (intro logical_entry_not_array [of key "JSub sq" cs ps "context" r]) auto
    next
      case False
      with s r show ?thesis
        by (intro field_entry_extends [of key "JSub sq" cs ps "context" r]) auto
    qed
  qed
  have q: "query_ok (JSub sq)"
    unfolding query_ok_def for_in_query.simps
    using for_in_instance_extends by auto
  from e q show ?case by blast
next
  case (JStr s)
  have e: "entry_ok (JStr s)"
    unfolding entry_ok_def
  proof (intro allI impI)
    fix key cs ps "context" r
    assume s: "sound_entry key (JStr s)" and r: "parse_key [] key (JStr s) cs ps context = Inr r"
    show "extends cs ps r"
    proof (cases "startsWith_dollar key")
      case True
      with r show ?thesis
        by (intro logical_entry_not_array [of key "JStr s" cs ps "context" r]) auto
    next
      case False
      with s r show ?thesis
        by (intro field_entry_extends [of key "JStr s" cs ps "context" r]) auto
    qed
  qed
  have q: "query_ok (JStr s)"
    unfolding query_ok_def for_in_query.simps for_in_string_def
    using foldl_push_equality_extends by auto
  from e q show ?case by blast
qed (auto simp: query_ok_def entry_ok_def for_in_query.simps
       intro: logical_entry_not_array field_entry_extends dest: sound_entry_field)

subsection \<open>No step reads what was accumulated\<close>

lemma appended_Inl [simp]: "appended cs ps (Inl e) = Inl e"
  by (simp add: appended_def)

lemma appended_Inr [simp]: "appended cs ps (Inr (c, p)) = Inr (cs @ c, ps @ p)"
  by (simp add: appended_def)

lemma appended_Nil [simp]: "appended [] [] r = r"
proof (cases r)
  case (Inl e)
  then show ?thesis by simp
next
  case (Inr x)
  then show ?thesis by (cases x) simp
qed

lemma appended_appended [simp]:
  "appended cs ps (appended c p r) = appended (cs @ c) (ps @ p) r"
proof (cases r)
  case (Inl e)
  then show ?thesis by simp
next
  case (Inr x)
  then show ?thesis by (cases x) simp
qed

lemma appended_rethrow: "appended cs ps (rethrow context r) = rethrow context (appended cs ps r)"
proof (cases r)
  case (Inl e)
  then show ?thesis by (simp add: rethrow_def)
next
  case (Inr x)
  then show ?thesis by (cases x) (simp add: rethrow_def)
qed

lemma framedD: "framed f \<Longrightarrow> f cs ps = appended cs ps (f [] [])"
  unfolding framed_def by blast

lemma framed_return: "framed (\<lambda>cs ps. Inr (cs @ c, ps @ p))"
  by (simp add: framed_def)

lemma framed_id: "framed (\<lambda>cs ps. Inr (cs, ps))"
  by (simp add: framed_def)

lemma framed_const: "framed (\<lambda>cs ps. Inl e)"
  by (simp add: framed_def)

lemma framed_rethrow: "framed f \<Longrightarrow> framed (\<lambda>cs ps. rethrow context (f cs ps))"
  unfolding framed_def
proof (intro allI)
  fix cs ps
  assume a: "\<forall>cs ps. f cs ps = appended cs ps (f [] [])"
  then have "f cs ps = appended cs ps (f [] [])" by blast
  then show "rethrow context (f cs ps) = appended cs ps (rethrow context (f [] []))"
    by (simp add: appended_rethrow)
qed

lemma framed_bind:
  assumes "framed f" and "framed g"
  shows "framed (\<lambda>cs ps. case f cs ps of Inl e \<Rightarrow> Inl e | Inr (c, p) \<Rightarrow> g c p)"
  unfolding framed_def
proof (intro allI)
  fix cs ps
  have f: "f cs ps = appended cs ps (f [] [])"
    using assms(1) by (rule framedD)
  show "(case f cs ps of Inl e \<Rightarrow> Inl e | Inr (c, p) \<Rightarrow> g c p) =
        appended cs ps (case f [] [] of Inl e \<Rightarrow> Inl e | Inr (c, p) \<Rightarrow> g c p)"
  proof (cases "f [] []")
    case (Inl e)
    with f show ?thesis by simp
  next
    case (Inr r)
    obtain c p where r: "r = (c, p)" by (cases r)
    have "g (cs @ c) (ps @ p) = appended (cs @ c) (ps @ p) (g [] [])"
      using assms(2) by (rule framedD)
    moreover have "g c p = appended c p (g [] [])"
      using assms(2) by (rule framedD)
    ultimately show ?thesis
      using f Inr r by simp
  qed
qed

lemma push_equality_framed: "framed (\<lambda>cs ps. Inr (push_equality key v cs ps))"
  by (simp add: framed_def push_equality_def)

lemma push_subquery_framed: "framed (push_subquery [] sq field)"
  by (auto simp: framed_def push_subquery.simps split: prod.splits sum.splits)

lemma map_subqueries_frame:
  "map_subqueries [] vs ps = appended [] ps (map_subqueries [] vs [])"
proof (induction vs arbitrary: ps)
  case Nil
  show ?case by (simp add: map_subqueries.simps)
next
  case (Cons v vs)
  have a: "map_subqueries [] vs (ps @ p) = appended [] ps (map_subqueries [] vs p)" for p
    using Cons.IH [of "ps @ p"] Cons.IH [of p] by simp
  show ?case
  proof (cases "as_SubQuery v")
    case None
    show ?thesis
      using a [of "[PVal v]"] None
      by (auto simp: map_subqueries.simps appended_def split: sum.splits)
  next
    case (Some sq)
    show ?thesis
    proof (cases "SubQuery_getParams [] sq")
      case (Pair g n)
      note g = Pair
      show ?thesis
      proof (cases "SubQuery_toSQL [] sq")
        case (fields t sq' m)
        show ?thesis
        proof (cases g)
          case (Inl e)
          with Some g show ?thesis by (simp add: map_subqueries.simps)
        next
          case (Inr sp)
          show ?thesis
            using a [of sp] Some g fields Inr
            by (auto simp: map_subqueries.simps appended_def split: sum.splits)
        qed
      qed
    qed
  qed
qed

lemma handleArrayOperators_framed:
  "framed (\<lambda>cs ps. handleArrayOperators [] field vs operator cs ps context)"
proof -
  have "handleArrayOperators [] field vs operator cs ps context =
        appended cs ps (handleArrayOperators [] field vs operator [] [] context)" for cs ps
  proof (cases "\<exists>x xs. vs = JArr (x # xs)")
    case True
    then obtain x xs where vs: "vs = JArr (x # xs)" by blast
    show ?thesis
    proof (cases "list_ex is_SubQuery (x # xs)")
      case True
      have "map_subqueries [] (x # xs) ps = appended [] ps (map_subqueries [] (x # xs) [])"
        by (rule map_subqueries_frame)
      with True vs show ?thesis
        by (auto simp: handleArrayOperators.simps appended_def split: sum.splits)
    next
      case False
      with vs show ?thesis
        by (simp add: handleArrayOperators.simps)
    qed
  next
    case False
    then have "handleArrayOperators [] field vs operator cs ps context =
               Inr (empty_array_operator operator cs, ps)" for cs ps
      by (auto simp: handleArrayOperators.simps split: jsval.splits list.splits)
    then show ?thesis
      by (simp add: empty_array_operator_def)
  qed
  then show ?thesis unfolding framed_def by blast
qed

lemma handleOperator_framed:
  "framed (\<lambda>cs ps. handleOperator [] field opValue operator cs ps context)"
proof (cases "\<exists>sq. opValue = JSub sq")
  case True
  then obtain sq where "opValue = JSub sq" by blast
  then have "(\<lambda>cs ps. handleOperator [] field opValue operator cs ps context) =
             push_subquery [] sq field"
    by (simp add: handleOperator.simps fun_eq_iff)
  then show ?thesis by (simp add: push_subquery_framed)
next
  case False
  then show ?thesis
    by (cases opValue)
      (auto simp: framed_def handleOperator.simps split: option.splits)
qed

lemma for_in_operators_framed:
  "framed (\<lambda>cs ps. for_in_operators [] key ops cs ps context)"
proof (induction ops)
  case Nil
  show ?case by (simp add: for_in_operators.simps framed_id)
next
  case (Cons kv ops)
  obtain op opValue where kv: "kv = (op, opValue)" by (cases kv)
  define step where "step = (\<lambda>cs ps.
      if startsWith_dollar op then
        (case (if op = ''$in'' then as_SubQuery opValue else None) of
           Some sq \<Rightarrow> push_subquery [] sq key cs ps
         | None \<Rightarrow>
           if op \<in> set [''$in'', ''$nin'', ''$all'']
           then handleArrayOperators [] key opValue op cs ps context
           else handleOperator [] key opValue op cs ps context)
      else Inr (push_equality key opValue cs ps))"
  have "framed step"
  proof (cases "startsWith_dollar op")
    case False
    then have "step = (\<lambda>cs ps. Inr (push_equality key opValue cs ps))"
      by (simp add: step_def)
    then show ?thesis by (simp add: push_equality_framed)
  next
    case True
    note d = True
    show ?thesis
    proof (cases "if op = ''$in'' then as_SubQuery opValue else None")
      case (Some sq)
      with d have "step = push_subquery [] sq key"
        by (simp add: step_def)
      then show ?thesis by (simp add: push_subquery_framed)
    next
      case None
      show ?thesis
      proof (cases "op \<in> set [''$in'', ''$nin'', ''$all'']")
        case True
        with d None have "step = (\<lambda>cs ps. handleArrayOperators [] key opValue op cs ps context)"
          unfolding step_def by simp
        then show ?thesis by (simp add: handleArrayOperators_framed)
      next
        case False
        with d None have "step = (\<lambda>cs ps. handleOperator [] key opValue op cs ps context)"
          unfolding step_def by simp
        then show ?thesis by (simp add: handleOperator_framed)
      qed
    qed
  qed
  then have "framed (\<lambda>cs ps. case step cs ps of Inl e \<Rightarrow> Inl e
                | Inr (c, p) \<Rightarrow> for_in_operators [] key ops c p context)"
    using Cons.IH by (rule framed_bind)
  with kv show ?case
    by (simp add: for_in_operators.simps step_def)
qed

lemma push_field_conditions_append:
  "push_field_conditions fieldConds cs = cs @ push_field_conditions fieldConds []"
  by (simp add: push_field_conditions_def split: list.splits)

lemma foldl_push_equality_append:
  "foldl (\<lambda>(cs, ps) (i, c). push_equality (k i) (w c) cs ps) (cs, ps) zs =
   (cs @ fst (foldl (\<lambda>(cs, ps) (i, c). push_equality (k i) (w c) cs ps) ([], []) zs),
    ps @ snd (foldl (\<lambda>(cs, ps) (i, c). push_equality (k i) (w c) cs ps) ([], []) zs))"
proof (induction zs arbitrary: cs ps)
  case Nil
  show ?case by simp
next
  case (Cons z zs)
  obtain i c where z: "z = (i, c)" by (cases z)
  show ?case
    using Cons.IH [of "cs @ [k i @ '' = ?'']" "ps @ [PVal (w c)]"]
      Cons.IH [of "[k i @ '' = ?'']" "[PVal (w c)]"] z
    by (simp add: push_equality_def)
qed

lemma for_in_string_framed: "framed (\<lambda>cs ps. Inr (for_in_string s cs ps))"
  unfolding framed_def for_in_string_def
proof (intro allI)
  fix cs :: "string list" and ps :: "param list"
  show "Inr (foldl (\<lambda>(cs, ps) (i, c). push_equality (show_nat i) (JStr [c]) cs ps) (cs, ps)
               (zip [0..<length s] s)) =
        appended cs ps (Inr (foldl (\<lambda>(cs, ps) (i, c). push_equality (show_nat i) (JStr [c]) cs ps)
               ([], []) (zip [0..<length s] s)))"
    by (subst foldl_push_equality_append [of show_nat "\<lambda>c. JStr [c]"])
       (simp add: appended_def split: prod.splits)
qed

lemma for_in_instance_framed: "framed (\<lambda>cs ps. Inr (for_in_instance sq cs ps))"
  unfolding framed_def
proof (intro allI)
  fix cs :: "string list" and ps :: "param list"
  let ?f = "\<lambda>(cs, ps) (op, v). push_equality ''queryBuilder'' v cs ps"
  let ?zs = "builder_props (queryBuilder sq)"
  have a: "foldl ?f ([], ps) ?zs = (fst (foldl ?f ([], []) ?zs), ps @ snd (foldl ?f ([], []) ?zs))"
    using foldl_push_equality_append [of "\<lambda>i. ''queryBuilder''" "\<lambda>v. v" "[]" ps ?zs]
    by simp
  show "Inr (for_in_instance sq cs ps) = appended cs ps (Inr (for_in_instance sq [] []))"
    unfolding for_in_instance_def a
    by (subst push_field_conditions_append)
       (simp add: push_equality_def appended_def split: prod.splits)
qed

lemma parseMongoQuery_frame:
  assumes "query_framed v"
  shows "parseMongoQuery [] v ps context = appended [] ps (parseMongoQuery [] v [] context)"
proof -
  from assms have "framed (\<lambda>cs ps. for_in_query [] v cs ps context)"
    by (simp add: query_framed_def)
  then have "for_in_query [] v [] ps context = appended [] ps (for_in_query [] v [] [] context)"
    by (rule framedD)
  then show ?thesis
    by (cases "for_in_query [] v [] [] context")
       (auto simp: parseMongoQuery.simps)
qed

lemma map_parseMongoQuery_frame:
  "\<forall>x \<in> set xs. query_framed x \<Longrightarrow>
   map_parseMongoQuery [] xs ps context label idx =
   appended [] ps (map_parseMongoQuery [] xs [] context label idx)"
proof (induction xs arbitrary: ps idx)
  case Nil
  show ?case by (simp add: map_parseMongoQuery.simps)
next
  case (Cons x xs)
  let ?ctx = "context @ ''->'' @ label @ ''['' @ show_nat idx @ '']''"
  have a: "map_parseMongoQuery [] xs (ps @ p) context label (Suc idx) =
           appended [] ps (map_parseMongoQuery [] xs p context label (Suc idx))" for p
    using Cons.IH [of "ps @ p" "Suc idx"] Cons.IH [of p "Suc idx"] Cons.prems by simp
  from Cons.prems have "query_framed x" by simp
  then have h: "parseMongoQuery [] x ps ?ctx = appended [] ps (parseMongoQuery [] x [] ?ctx)"
    by (rule parseMongoQuery_frame)
  show ?case
  proof (cases "parseMongoQuery [] x [] ?ctx")
    case (Inl e)
    with h show ?thesis by (simp add: map_parseMongoQuery.simps)
  next
    case (Inr r)
    obtain t p where r: "r = (t, p)" by (cases r)
    show ?thesis
    proof (cases "map_parseMongoQuery [] xs p context label (Suc idx)")
      case (Inl e)
      with h Inr r a [of p] show ?thesis by (simp add: map_parseMongoQuery.simps)
    next
      case (Inr r2)
      note r2 = Inr
      obtain c2 p2 where "r2 = (c2, p2)" by (cases r2)
      with h \<open>parseMongoQuery [] x [] ?ctx = Inr r\<close> r a [of p] r2 show ?thesis
        by (simp add: map_parseMongoQuery.simps)
    qed
  qed
qed

lemma wrap_framed:
  assumes "\<And>ps. m ps = appended [] ps (m [])"
  shows "framed (\<lambda>cs ps. case m ps of Inl e \<Rightarrow> Inl e | Inr (conds, ps') \<Rightarrow> Inr (cs @ k conds, ps'))"
  unfolding framed_def
proof (intro allI)
  fix cs ps
  have "m ps = appended [] ps (m [])" by (rule assms)
  then show "(case m ps of Inl e \<Rightarrow> Inl e | Inr (conds, ps') \<Rightarrow> Inr (cs @ k conds, ps')) =
        appended cs ps (case m [] of Inl e \<Rightarrow> Inl e | Inr (conds, ps') \<Rightarrow> Inr ([] @ k conds, ps'))"
    by (cases "m []") (auto simp: appended_def)
qed

lemma logical_entry_framed:
  assumes "\<forall>x \<in> set xs. query_framed x" and "startsWith_dollar key"
  shows "framed (\<lambda>cs ps. parse_key [] key (JArr xs) cs ps context)"
proof -
  have m: "map_parseMongoQuery [] xs ps context label 0 =
           appended [] ps (map_parseMongoQuery [] xs [] context label 0)" for ps label
    using assms(1) by (rule map_parseMongoQuery_frame)
  consider (c_or) "key = ''$or''" | (c_nor) "key = ''$nor''" | (c_and) "key = ''$and''"
    | (c_other) "key \<noteq> ''$or''" "key \<noteq> ''$nor''" "key \<noteq> ''$and''"
    by blast
  then show ?thesis
  proof cases
    case c_or
    have "framed (\<lambda>cs ps. case map_parseMongoQuery [] xs ps context ''OR'' 0 of Inl e \<Rightarrow> Inl e
        | Inr (conds, ps') \<Rightarrow> Inr (cs @
            (let orConditions = filter (\<lambda>cond. cond \<noteq> [] \<and> cond \<noteq> ''1=1'') conds in
             if orConditions \<noteq> [] then [''('' @ join_str '' OR '' orConditions @ '')'']
             else [''1=0'']), ps'))"
      by (rule wrap_framed) (rule m)
    moreover have "(\<lambda>cs ps. parse_key [] key (JArr xs) cs ps context) =
      (\<lambda>cs ps. case map_parseMongoQuery [] xs ps context ''OR'' 0 of Inl e \<Rightarrow> Inl e
        | Inr (conds, ps') \<Rightarrow> Inr (cs @
            (let orConditions = filter (\<lambda>cond. cond \<noteq> [] \<and> cond \<noteq> ''1=1'') conds in
             if orConditions \<noteq> [] then [''('' @ join_str '' OR '' orConditions @ '')'']
             else [''1=0'']), ps'))"
      using c_or assms(2) by (auto simp: parse_key.simps fun_eq_iff Let_def split: sum.splits)
    ultimately show ?thesis by simp
  next
    case c_nor
    have "framed (\<lambda>cs ps. case map_parseMongoQuery [] xs ps context ''NOR'' 0 of Inl e \<Rightarrow> Inl e
        | Inr (conds, ps') \<Rightarrow> Inr (cs @
            (let norConditions = filter (\<lambda>cond. cond \<noteq> [] \<and> cond \<noteq> ''1=1'') conds in
             if norConditions \<noteq> [] then [''NOT ('' @ join_str '' OR '' norConditions @ '')'']
             else [''1=1'']), ps'))"
      by (rule wrap_framed) (rule m)
    moreover have "(\<lambda>cs ps. parse_key [] key (JArr xs) cs ps context) =
      (\<lambda>cs ps. case map_parseMongoQuery [] xs ps context ''NOR'' 0 of Inl e \<Rightarrow> Inl e
        | Inr (conds, ps') \<Rightarrow> Inr (cs @
            (let norConditions = filter (\<lambda>cond. cond \<noteq> [] \<and> cond \<noteq> ''1=1'') conds in
             if norConditions \<noteq> [] then [''NOT ('' @ join_str '' OR '' norConditions @ '')'']
             else [''1=1'']), ps'))"
      using c_nor assms(2) by (auto simp: parse_key.simps fun_eq_iff Let_def split: sum.splits)
    ultimately show ?thesis by simp
  next
    case c_and
    have "framed (\<lambda>cs ps. case map_parseMongoQuery [] xs ps context ''AND'' 0 of Inl e \<Rightarrow> Inl e
        | Inr (conds, ps') \<Rightarrow> Inr (cs @
            (let andConditions = filter (\<lambda>cond. cond \<noteq> []) conds in
             if andConditions \<noteq> [] then [join_str '' AND '' andConditions] else []), ps'))"
      by (rule wrap_framed) (rule m)
    moreover have "(\<lambda>cs ps. parse_key [] key (JArr xs) cs ps context) =
      (\<lambda>cs ps. case map_parseMongoQuery [] xs ps context ''AND'' 0 of Inl e \<Rightarrow> Inl e
        | Inr (conds, ps') \<Rightarrow> Inr (cs @
            (let andConditions = filter (\<lambda>cond. cond \<noteq> []) conds in
             if andConditions \<noteq> [] then [join_str '' AND '' andConditions] else []), ps'))"
      using c_and assms(2) by (auto simp: parse_key.simps fun_eq_iff Let_def split: sum.splits)
    ultimately show ?thesis by simp
  next
    case c_other
    show ?thesis
    proof (cases xs)
      case Nil
      with c_other assms(2) have "(\<lambda>cs ps. parse_key [] key (JArr xs) cs ps context) =
        (\<lambda>cs ps. Inr (cs @ [''1=0''], ps @ []))"
        by (simp add: parse_key.simps handleLogicalOperators.simps fun_eq_iff)
      then show ?thesis
        by (simp only: framed_return)
    next
      case (Cons y ys)
      have "framed (\<lambda>cs ps. case map_parseMongoQuery [] xs ps context key 0 of Inl e \<Rightarrow> Inl e
        | Inr (conds, ps') \<Rightarrow> Inr (cs @
            [''('' @ join_str ('' '' @ (case OPERATORS_MYSQL key of
                                          Some sqlOperator \<Rightarrow> sqlOperator
                                        | None \<Rightarrow> key) @ '' '')
                      (map (\<lambda>c. ''('' @ c @ '')'') conds) @ '')''], ps'))"
        by (rule wrap_framed) (rule m)
      moreover have "(\<lambda>cs ps. parse_key [] key (JArr xs) cs ps context) =
        (\<lambda>cs ps. case map_parseMongoQuery [] xs ps context key 0 of Inl e \<Rightarrow> Inl e
        | Inr (conds, ps') \<Rightarrow> Inr (cs @
            [''('' @ join_str ('' '' @ (case OPERATORS_MYSQL key of
                                          Some sqlOperator \<Rightarrow> sqlOperator
                                        | None \<Rightarrow> key) @ '' '')
                      (map (\<lambda>c. ''('' @ c @ '')'') conds) @ '')''], ps'))"
        using c_other assms(2) Cons
        by (auto simp: parse_key.simps handleLogicalOperators.simps fun_eq_iff Let_def
            split: sum.splits)
      ultimately show ?thesis by simp
    qed
  qed
qed

lemma logical_entry_not_array_framed:
  assumes "startsWith_dollar key" and "\<And>xs. v \<noteq> JArr xs"
  shows "framed (\<lambda>cs ps. parse_key [] key v cs ps context)"
proof (cases "key = ''$or'' \<or> key = ''$nor'' \<or> key = ''$and''")
  case True
  with assms have "(\<lambda>cs ps. parse_key [] key v cs ps context) = (\<lambda>cs ps. Inl (map_not_callable v))"
    by (cases v) (auto simp: parse_key.simps fun_eq_iff)
  then show ?thesis by (simp only: framed_const)
next
  case False
  with assms have "(\<lambda>cs ps. parse_key [] key v cs ps context) =
      (\<lambda>cs ps. Inr (cs @ [''1=0''], ps @ []))"
    by (cases v) (auto simp: parse_key.simps handleLogicalOperators.simps fun_eq_iff)
  then show ?thesis by (simp only: framed_return)
qed

lemma field_entry_framed:
  assumes "\<not> startsWith_dollar key"
  shows "framed (\<lambda>cs ps. parse_key [] key v cs ps context)"
proof (cases v)
  case (JSub sq)
  with assms have "(\<lambda>cs ps. parse_key [] key v cs ps context) = push_subquery [] sq key"
    by (simp add: parse_key.simps fun_eq_iff)
  then show ?thesis by (simp add: push_subquery_framed)
next
  case (JObj ops)
  have f: "for_in_operators [] key ops [] ps context =
           appended [] ps (for_in_operators [] key ops [] [] context)" for ps
    using for_in_operators_framed [of key ops "context"] by (rule framedD)
  have "framed (\<lambda>cs ps. case for_in_operators [] key ops [] ps context of Inl e \<Rightarrow> Inl e
        | Inr (fieldConds, ps') \<Rightarrow> Inr (cs @ push_field_conditions fieldConds [], ps'))"
    by (rule wrap_framed) (rule f)
  then have "framed (\<lambda>cs ps. case for_in_operators [] key ops [] ps context of Inl e \<Rightarrow> Inl e
        | Inr (fieldConds, ps') \<Rightarrow> Inr (push_field_conditions fieldConds cs, ps'))"
    by (simp only: push_field_conditions_append [symmetric])
  with assms JObj show ?thesis
    by (simp add: parse_key.simps)
qed (use assms in \<open>simp_all add: parse_key.simps push_equality_framed\<close>)

lemma for_in_entries_framed:
  "\<forall>kv \<in> set kvs. entry_framed (snd kv) \<Longrightarrow>
   framed (\<lambda>cs ps. for_in_entries [] kvs cs ps context)"
proof (induction kvs)
  case Nil
  show ?case by (simp add: for_in_entries.simps framed_id)
next
  case (Cons kv kvs)
  obtain key v where kv: "kv = (key, v)" by (cases kv)
  with Cons.prems have "framed (\<lambda>cs ps. parse_key [] key v cs ps context)"
    by (simp add: entry_framed_def)
  then have "framed (\<lambda>cs ps. rethrow context (parse_key [] key v cs ps context))"
    by (rule framed_rethrow)
  moreover from Cons have "framed (\<lambda>cs ps. for_in_entries [] kvs cs ps context)"
    by simp
  ultimately have "framed (\<lambda>cs ps. case rethrow context (parse_key [] key v cs ps context) of
      Inl e \<Rightarrow> Inl e | Inr (c, p) \<Rightarrow> for_in_entries [] kvs c p context)"
    by (rule framed_bind)
  with kv show ?case by (simp add: for_in_entries.simps)
qed

lemma for_in_elements_framed:
  "\<forall>x \<in> set xs. entry_framed x \<Longrightarrow>
   framed (\<lambda>cs ps. for_in_elements [] i xs cs ps context)"
proof (induction xs arbitrary: i)
  case Nil
  show ?case by (simp add: for_in_elements.simps framed_id)
next
  case (Cons x xs)
  from Cons.prems have "framed (\<lambda>cs ps. parse_key [] (show_nat i) x cs ps context)"
    by (simp add: entry_framed_def)
  then have "framed (\<lambda>cs ps. rethrow context (parse_key [] (show_nat i) x cs ps context))"
    by (rule framed_rethrow)
  moreover from Cons have "framed (\<lambda>cs ps. for_in_elements [] (Suc i) xs cs ps context)"
    by simp
  ultimately have "framed (\<lambda>cs ps. case rethrow context (parse_key [] (show_nat i) x cs ps context) of
      Inl e \<Rightarrow> Inl e | Inr (c, p) \<Rightarrow> for_in_elements [] (Suc i) xs c p context)"
    by (rule framed_bind)
  then show ?case by (simp add: for_in_elements.simps)
qed

lemma translator_framed: "query_framed v \<and> entry_framed v"
proof (induction v rule: jsval.induct [where ?P2.0 = "\<lambda>sq. True" and ?P3.0 = "\<lambda>b. True"])
  case (JArr xs)
  have "entry_framed (JArr xs)"
    unfolding entry_framed_def
  proof (intro allI)
    fix key "context"
    show "framed (\<lambda>cs ps. parse_key [] key (JArr xs) cs ps context)"
    proof (cases "startsWith_dollar key")
      case True
      with JArr show ?thesis by (intro logical_entry_framed) auto
    next
      case False
      then show ?thesis by (rule field_entry_framed)
    qed
  qed
  moreover have "query_framed (JArr xs)"
    unfolding query_framed_def for_in_query.simps
    using for_in_elements_framed [of xs] JArr by auto
  ultimately show ?case by blast
next
  case (JObj kvs)
  have "entry_framed (JObj kvs)"
    unfolding entry_framed_def
  proof (intro allI)
    fix key "context"
    show "framed (\<lambda>cs ps. parse_key [] key (JObj kvs) cs ps context)"
    proof (cases "startsWith_dollar key")
      case True
      then show ?thesis by (rule logical_entry_not_array_framed) simp
    next
      case False
      then show ?thesis by (rule field_entry_framed)
    qed
  qed
  moreover have "\<forall>kv \<in> set kvs. entry_framed (snd kv)"
    using JObj by (auto simp: snds.simps)
  then have "query_framed (JObj kvs)"
    unfolding query_framed_def for_in_query.simps
    using for_in_entries_framed [of kvs] by auto
  ultimately show ?case by blast
qed (auto simp: query_framed_def entry_framed_def for_in_query.simps framed_id
       for_in_string_framed for_in_instance_framed
       intro: logical_entry_not_array_framed field_entry_framed)

subsection \<open>The parts of a filter contribute in order\<close>

lemma for_in_entries_append:
  "for_in_entries pl (kvs1 @ kvs2) cs ps context =
     (case for_in_entries pl kvs1 cs ps context of
        Inl e \<Rightarrow> Inl e
      | Inr (c, p) \<Rightarrow> for_in_entries pl kvs2 c p context)"
proof (induction kvs1 arbitrary: cs ps)
  case Nil
  show ?case by (simp add: for_in_entries.simps)
next
  case (Cons kv kvs1)
  obtain key v where kv: "kv = (key, v)" by (cases kv)
  show ?case
  proof (cases "rethrow context (parse_key pl key v cs ps context)")
    case (Inl e)
    with kv show ?thesis by (simp add: for_in_entries.simps del: rethrow_Inr)
  next
    case (Inr r)
    obtain c p where "r = (c, p)" by (cases r)
    with Inr kv Cons.IH [of c p] show ?thesis
      by (simp add: for_in_entries.simps del: rethrow_Inr)
  qed
qed

lemma sound_entries_append [simp]:
  "sound_entries (kvs1 @ kvs2) = (sound_entries kvs1 \<and> sound_entries kvs2)"
  by (induction kvs1) auto

lemma for_in_entries_frame:
  "for_in_entries [] kvs cs ps context = appended cs ps (for_in_entries [] kvs [] [] context)"
proof -
  have "framed (\<lambda>cs ps. for_in_entries [] kvs cs ps context)"
    by (rule for_in_entries_framed) (simp add: translator_framed)
  then show ?thesis by (rule framedD)
qed

lemma for_in_entries_aligned:
  assumes "sound_entries kvs" and "for_in_entries [] kvs [] [] context = Inr (c, p)"
  shows "aligned c p"
proof -
  have "extends [] [] (c, p)"
    using _ assms by (rule for_in_entries_extends) (simp add: translator_invariant)
  then show ?thesis by (simp add: extends_def)
qed

lemma entries_in_order:
  assumes "sound_entries (kvs1 @ kvs2)"
    and "for_in_entries [] (kvs1 @ kvs2) cs ps context = Inr r"
  shows "\<exists>c1 p1 c2 p2.
      for_in_entries [] kvs1 [] [] context = Inr (c1, p1) \<and>
      for_in_entries [] kvs2 [] [] context = Inr (c2, p2) \<and>
      r = (cs @ c1 @ c2, ps @ p1 @ p2) \<and> aligned c1 p1 \<and> aligned c2 p2"
proof -
  from assms(2) obtain c p where a: "for_in_entries [] kvs1 cs ps context = Inr (c, p)"
    and b: "for_in_entries [] kvs2 c p context = Inr r"
    by (auto simp: for_in_entries_append split: sum.splits)
  from a obtain c1 p1 where a1: "for_in_entries [] kvs1 [] [] context = Inr (c1, p1)"
    and c: "c = cs @ c1" "p = ps @ p1"
    by (subst (asm) for_in_entries_frame) (auto simp: appended_def split: sum.splits)
  from b obtain c2 p2 where b1: "for_in_entries [] kvs2 [] [] context = Inr (c2, p2)"
    and r: "r = (c @ c2, p @ p2)"
    by (subst (asm) for_in_entries_frame) (auto simp: appended_def split: sum.splits)
  from assms(1) a1 have "aligned c1 p1"
    by (auto intro: for_in_entries_aligned)
  moreover from assms(1) b1 have "aligned c2 p2"
    by (auto intro: for_in_entries_aligned)
  ultimately show ?thesis
    using a1 b1 c r by simp
qed

lemma map_parseMongoQuery_append:
  "map_parseMongoQuery pl (xs1 @ xs2) ps context label idx =
     (case map_parseMongoQuery pl xs1 ps context label idx of
        Inl e \<Rightarrow> Inl e
      | Inr (c1, p1) \<Rightarrow>
          (case map_parseMongoQuery pl xs2 p1 context label (idx + length xs1) of
             Inl e \<Rightarrow> Inl e
           | Inr (c2, p2) \<Rightarrow> Inr (c1 @ c2, p2)))"
proof (induction xs1 arbitrary: ps idx)
  case Nil
  show ?case
    by (cases "map_parseMongoQuery pl xs2 ps context label idx")
       (auto simp: map_parseMongoQuery.simps)
next
  case (Cons x xs1)
  show ?case
    using Cons.IH [of _ "Suc idx"]
    by (simp add: map_parseMongoQuery.simps split: sum.splits prod.splits)
qed

lemma sound_filters_append [simp]:
  "sound_filters (xs1 @ xs2) = (sound_filters xs1 \<and> sound_filters xs2)"
  by (induction xs1) auto

lemma children_in_order:
  assumes "sound_filters (xs1 @ xs2)"
    and "map_parseMongoQuery [] (xs1 @ xs2) ps context label idx = Inr r"
  shows "\<exists>c1 p1 c2 p2.
      map_parseMongoQuery [] xs1 [] context label idx = Inr (c1, p1) \<and>
      map_parseMongoQuery [] xs2 [] context label (idx + length xs1) = Inr (c2, p2) \<and>
      r = (c1 @ c2, ps @ p1 @ p2) \<and> aligned c1 p1 \<and> aligned c2 p2"
proof -
  have fr: "map_parseMongoQuery [] xs q context label i =
            appended [] q (map_parseMongoQuery [] xs [] context label i)" for xs q i
    by (rule map_parseMongoQuery_frame) (simp add: translator_framed)
  have al: "aligned c p" if "sound_filters xs" "map_parseMongoQuery [] xs [] context label i = Inr (c, p)"
    for xs i c p
    using map_parse_aligned [OF _ that] translator_invariant by auto
  from assms(2) obtain c1 q1 c2 q2 where a: "map_parseMongoQuery [] xs1 ps context label idx = Inr (c1, q1)"
    and b: "map_parseMongoQuery [] xs2 q1 context label (idx + length xs1) = Inr (c2, q2)"
    and r: "r = (c1 @ c2, q2)"
    by (auto simp: map_parseMongoQuery_append split: sum.splits)
  from a obtain p1 where a1: "map_parseMongoQuery [] xs1 [] context label idx = Inr (c1, p1)"
    and q1: "q1 = ps @ p1"
    by (subst (asm) fr) (auto simp: appended_def split: sum.splits)
  from b obtain p2 where b1: "map_parseMongoQuery [] xs2 [] context label (idx + length xs1) = Inr (c2, p2)"
    and q2: "q2 = q1 @ p2"
    by (subst (asm) fr) (auto simp: appended_def split: sum.splits)
  from assms(1) a1 have "aligned c1 p1" by (auto intro: al)
  moreover from assms(1) b1 have "aligned c2 p2" by (auto intro: al)
  ultimately show ?thesis
    using a1 b1 r q1 q2 by simp
qed

lemma for_in_operators_append:
  "for_in_operators pl key (ops1 @ ops2) fieldConds ps context =
     (case for_in_operators pl key ops1 fieldConds ps context of
        Inl e \<Rightarrow> Inl e
      | Inr (c, p) \<Rightarrow> for_in_operators pl key ops2 c p context)"
proof (induction ops1 arbitrary: fieldConds ps)
  case Nil
  show ?case by (simp add: for_in_operators.simps)
next
  case (Cons kv ops1)
  obtain op v where kv: "kv = (op, v)" by (cases kv)
  show ?case
    unfolding kv append_Cons for_in_operators.simps
    by (simp add: Cons.IH split: sum.splits prod.splits)
qed

lemma sound_operators_append [simp]:
  "sound_operators (ops1 @ ops2) = (sound_operators ops1 \<and> sound_operators ops2)"
  by (simp add: sound_operators_def)

lemma operators_in_order:
  assumes "placeholders key = 0" and "sound_operators (ops1 @ ops2)"
    and "for_in_operators [] key (ops1 @ ops2) fieldConds ps context = Inr r"
  shows "\<exists>c1 p1 c2 p2.
      for_in_operators [] key ops1 [] [] context = Inr (c1, p1) \<and>
      for_in_operators [] key ops2 [] [] context = Inr (c2, p2) \<and>
      r = (fieldConds @ c1 @ c2, ps @ p1 @ p2) \<and> aligned c1 p1 \<and> aligned c2 p2"
proof -
  have fr: "for_in_operators [] key ops c p context =
            appended c p (for_in_operators [] key ops [] [] context)" for ops c p
    using for_in_operators_framed [of key ops "context"] by (rule framedD)
  have al: "aligned c p" if "sound_operators ops" "for_in_operators [] key ops [] [] context = Inr (c, p)"
    for ops c p
    using for_in_operators_extends [OF assms(1) that] by (simp add: extends_def)
  from assms(3) obtain c q where a: "for_in_operators [] key ops1 fieldConds ps context = Inr (c, q)"
    and b: "for_in_operators [] key ops2 c q context = Inr r"
    by (auto simp: for_in_operators_append split: sum.splits)
  from a obtain c1 p1 where a1: "for_in_operators [] key ops1 [] [] context = Inr (c1, p1)"
    and c: "c = fieldConds @ c1" "q = ps @ p1"
    by (subst (asm) fr) (auto simp: appended_def split: sum.splits)
  from b obtain c2 p2 where b1: "for_in_operators [] key ops2 [] [] context = Inr (c2, p2)"
    and r: "r = (c @ c2, q @ p2)"
    by (subst (asm) fr) (auto simp: appended_def split: sum.splits)
  from assms(2) a1 have "aligned c1 p1" by (auto intro: al)
  moreover from assms(2) b1 have "aligned c2 p2" by (auto intro: al)
  ultimately show ?thesis
    using a1 b1 c r by simp
qed




end
